theory Spec2Isabelle
  imports Complex_Main "HOL-Library.AList" "HOL-Library.Word"
begin

section \<open>The streaming analytics consumer (streaming-kafka/analytics_consumer/main.py)\<close>

text \<open>
  Conventions of the embedding.
  \<^item> A Python \<open>float\<close> is an idealised \<open>real\<close>; a Python \<open>int\<close> is an \<open>int\<close>.
  \<^item> Every call of \<open>time.time()\<close> is an explicit argument \<open>now\<close> of the method that makes it,
    so a method that reads the clock once takes one reading and \<open>snapshot\<close>, which reads
    it four times, takes four.
  \<^item> A \<open>deque\<close> is a list whose head is the left end; a \<open>dict\<close> is an association list
    read with \<open>map_of\<close>, written with \<open>AList.update\<close> and \<open>AList.delete\<close>
    (so \<open>len\<close> is \<open>length\<close>).
  \<^item> Mutation is state passing: a method returns its result and the object after the call.
  \<^item> A raised exception is the \<open>Inl\<close> of a sum.
\<close>

datatype kafka_code = PARTITION_EOF | UNKNOWN_TOPIC_OR_PART | OTHER_CODE int

datatype py_error = ValueError | AttributeError | ZeroDivisionError | KafkaException kafka_code

text \<open>Python's \<open>/\<close>: it raises on a zero divisor, where HOL's division returns 0.\<close>

definition truediv :: "real \<Rightarrow> real \<Rightarrow> py_error + real" where
  "truediv a b = (if b = 0 then Inl ZeroDivisionError else Inr (a / b))"

subsection \<open>class FailureWindow\<close>

record failure_window =
  fw_window :: real
  fw_events :: "(real \<times> bool) list"
  fw_failures :: int

definition FailureWindow_init :: "real \<Rightarrow> failure_window" where
  "FailureWindow_init window_seconds =
     \<lparr>fw_window = max window_seconds 1, fw_events = [], fw_failures = 0\<rparr>"

text \<open>The \<open>while\<close> loop of \<open>FailureWindow._evict\<close>, on the deque and the counter.\<close>

fun fw_evict_loop :: "real \<Rightarrow> (real \<times> bool) list \<Rightarrow> int \<Rightarrow> (real \<times> bool) list \<times> int" where
  "fw_evict_loop cutoff [] failures = ([], failures)"
| "fw_evict_loop cutoff ((ts, is_failure) # rest) failures =
     (if ts < cutoff
      then fw_evict_loop cutoff rest (if is_failure then max (failures - 1) 0 else failures)
      else ((ts, is_failure) # rest, failures))"

definition fw_evict :: "real \<Rightarrow> failure_window \<Rightarrow> failure_window" where
  "fw_evict now s =
     (let cutoff = now - fw_window s;
          r = fw_evict_loop cutoff (fw_events s) (fw_failures s)
      in s\<lparr>fw_events := fst r, fw_failures := snd r\<rparr>)"

definition fw_track :: "real \<Rightarrow> bool \<Rightarrow> failure_window \<Rightarrow> failure_window" where
  "fw_track now is_failure s =
     fw_evict now
       (s\<lparr>fw_events := fw_events s @ [(now, is_failure)],
          fw_failures := (if is_failure then fw_failures s + 1 else fw_failures s)\<rparr>)"

text \<open>\<open>totals\<close> returns \<open>(len(self._events), self._failures)\<close> and the evicted window.\<close>

definition totals :: "real \<Rightarrow> failure_window \<Rightarrow> (int \<times> int) \<times> failure_window" where
  "totals now s =
     (let s' = fw_evict now s in ((int (length (fw_events s')), fw_failures s'), s'))"

text \<open>\<open>(failures / total * 100) if total else 0.0\<close>\<close>

definition failure_rate_pct :: "real \<Rightarrow> failure_window \<Rightarrow> (py_error + real) \<times> failure_window" where
  "failure_rate_pct now s =
     (let r = totals now s; total = fst (fst r); failures = snd (fst r)
      in ((if total \<noteq> 0
           then (case truediv (real_of_int failures) (real_of_int total) of
                   Inl e \<Rightarrow> Inl e
                 | Inr q \<Rightarrow> Inr (q * 100))
           else Inr 0),
          snd r))"

text \<open>A history of calls on one window, each with the clock reading it makes.\<close>

datatype fw_call = FwTrack real bool | FwTotals real | FwFailureRatePct real

fun fw_call_run :: "fw_call \<Rightarrow> failure_window \<Rightarrow> failure_window" where
  "fw_call_run (FwTrack now is_failure) s = fw_track now is_failure s"
| "fw_call_run (FwTotals now) s = snd (totals now s)"
| "fw_call_run (FwFailureRatePct now) s = snd (failure_rate_pct now s)"

fun fw_run :: "fw_call list \<Rightarrow> failure_window \<Rightarrow> failure_window" where
  "fw_run [] s = s"
| "fw_run (c # cs) s = fw_run cs (fw_call_run c s)"

text \<open>The invariant of the class: the counter is the number of true-flagged entries.\<close>

definition fw_inv :: "failure_window \<Rightarrow> bool" where
  "fw_inv s = (fw_failures s = int (length (filter snd (fw_events s))))"

subsection \<open>class DuplicateFilter\<close>

record duplicate_filter =
  df_ttl :: real
  df_seen :: "(string \<times> real) list"
  df_order :: "(real \<times> string) list"

definition DuplicateFilter_init :: "real \<Rightarrow> duplicate_filter" where
  "DuplicateFilter_init ttl_seconds =
     \<lparr>df_ttl = max ttl_seconds 1, df_seen = [], df_order = []\<rparr>"

text \<open>The loop of \<open>DuplicateFilter._evict\<close>: \<open>self._seen.pop(event_id, None)\<close> per popped entry.\<close>

fun df_evict_loop ::
  "real \<Rightarrow> (real \<times> string) list \<Rightarrow> (string \<times> real) list \<Rightarrow>
   (real \<times> string) list \<times> (string \<times> real) list" where
  "df_evict_loop cutoff [] seen = ([], seen)"
| "df_evict_loop cutoff ((ts, event_id) # rest) seen =
     (if ts < cutoff
      then df_evict_loop cutoff rest (AList.delete event_id seen)
      else ((ts, event_id) # rest, seen))"

definition df_evict :: "real \<Rightarrow> duplicate_filter \<Rightarrow> duplicate_filter" where
  "df_evict now s =
     (let cutoff = now - df_ttl s;
          r = df_evict_loop cutoff (df_order s) (df_seen s)
      in s\<lparr>df_seen := snd r, df_order := fst r\<rparr>)"

definition register :: "real \<Rightarrow> string \<Rightarrow> duplicate_filter \<Rightarrow> bool \<times> duplicate_filter" where
  "register now event_id s =
     (let s' = df_evict now s
      in if map_of (df_seen s') event_id \<noteq> None
         then (True, s')
         else (False,
               s'\<lparr>df_seen := AList.update event_id now (df_seen s'),
                  df_order := df_order s' @ [(now, event_id)]\<rparr>))"

text \<open>A history of \<open>register\<close> calls: each with its clock reading and its identity.\<close>

fun df_run :: "(real \<times> string) list \<Rightarrow> duplicate_filter \<Rightarrow> duplicate_filter" where
  "df_run [] s = s"
| "df_run ((now, event_id) # cs) s = df_run cs (snd (register now event_id s))"

fun df_results :: "(real \<times> string) list \<Rightarrow> duplicate_filter \<Rightarrow> bool list" where
  "df_results [] s = []"
| "df_results ((now, event_id) # cs) s =
     fst (register now event_id s) # df_results cs (snd (register now event_id s))"

text \<open>
  The contract in the words of the specification, with no eviction and no deque: a
  table of the identities recorded so far with the time each was recorded. A call
  answers true and changes nothing when the identity was recorded within the trailing
  \<open>ttl\<close> seconds; otherwise it records the identity at the current time and answers false.
\<close>

fun spec_register_results :: "real \<Rightarrow> (real \<times> string) list \<Rightarrow> (string \<Rightarrow> real option) \<Rightarrow> bool list" where
  "spec_register_results T [] recorded = []"
| "spec_register_results T ((now, event_id) # cs) recorded =
     (case recorded event_id of
        None \<Rightarrow> False # spec_register_results T cs (recorded(event_id \<mapsto> now))
      | Some ts \<Rightarrow>
          if now - ts \<le> T
          then True # spec_register_results T cs recorded
          else False # spec_register_results T cs (recorded(event_id \<mapsto> now)))"

text \<open>The table of the contract after a history of calls.\<close>

fun spec_recorded :: "real \<Rightarrow> (real \<times> string) list \<Rightarrow> (string \<Rightarrow> real option) \<Rightarrow> (string \<Rightarrow> real option)" where
  "spec_recorded T [] recorded = recorded"
| "spec_recorded T ((now, ident) # cs) recorded =
     (case recorded ident of
        None \<Rightarrow> spec_recorded T cs (recorded(ident \<mapsto> now))
      | Some ts \<Rightarrow>
          if now - ts \<le> T
          then spec_recorded T cs recorded
          else spec_recorded T cs (recorded(ident \<mapsto> now)))"

text \<open>
  What ties a filter to the table of the contract at a clock reading \<open>tc\<close> that no stored
  time exceeds: the deque is in time order and holds each identity once, \<open>_seen\<close> holds
  exactly the deque's entries, each of them is the table's entry of its identity, and an
  entry of the table missing from the deque is older than \<open>tc - ttl\<close>.
\<close>

definition df_inv :: "real \<Rightarrow> real \<Rightarrow> (string \<Rightarrow> real option) \<Rightarrow> duplicate_filter \<Rightarrow> bool" where
  "df_inv T tc recorded s =
     (df_ttl s = T \<and>
      sorted (map fst (df_order s)) \<and>
      (\<forall>p \<in> set (df_order s). fst p \<le> tc) \<and>
      distinct (map snd (df_order s)) \<and>
      distinct (map fst (df_seen s)) \<and>
      (\<forall>k t. map_of (df_seen s) k = Some t \<longleftrightarrow> (t, k) \<in> set (df_order s)) \<and>
      (\<forall>k t. (t, k) \<in> set (df_order s) \<longrightarrow> recorded k = Some t) \<and>
      (\<forall>k t. recorded k = Some t \<longrightarrow> (t, k) \<in> set (df_order s) \<or> t < tc - T))"

subsection \<open>class UniqueOrderWindow\<close>

record unique_order_window =
  uow_window :: real
  uow_entries :: "(string \<times> real) list"
  uow_order :: "(real \<times> string) list"

definition UniqueOrderWindow_init :: "real \<Rightarrow> unique_order_window" where
  "UniqueOrderWindow_init window_seconds =
     \<lparr>uow_window = max window_seconds 1, uow_entries = [], uow_order = []\<rparr>"

text \<open>
  The loop of \<open>UniqueOrderWindow._evict\<close>: a popped entry removes its key only
  \<open>if self._entries.get(order_id) == ts\<close>.
\<close>

fun uow_evict_loop ::
  "real \<Rightarrow> (real \<times> string) list \<Rightarrow> (string \<times> real) list \<Rightarrow>
   (real \<times> string) list \<times> (string \<times> real) list" where
  "uow_evict_loop cutoff [] entries = ([], entries)"
| "uow_evict_loop cutoff ((ts, order_id) # rest) entries =
     (if ts < cutoff
      then uow_evict_loop cutoff rest
             (if map_of entries order_id = Some ts then AList.delete order_id entries else entries)
      else ((ts, order_id) # rest, entries))"

definition uow_evict :: "real \<Rightarrow> unique_order_window \<Rightarrow> unique_order_window" where
  "uow_evict now s =
     (let cutoff = now - uow_window s;
          r = uow_evict_loop cutoff (uow_order s) (uow_entries s)
      in s\<lparr>uow_entries := snd r, uow_order := fst r\<rparr>)"

text \<open>\<open>if not order_id: return\<close> leaves at \<open>None\<close> and at the empty string.\<close>

definition uow_track :: "real \<Rightarrow> string option \<Rightarrow> unique_order_window \<Rightarrow> unique_order_window" where
  "uow_track now order_id s =
     (case order_id of
        None \<Rightarrow> s
      | Some k \<Rightarrow>
          if k = [] then s
          else uow_evict now
                 (s\<lparr>uow_entries := AList.update k now (uow_entries s),
                    uow_order := uow_order s @ [(now, k)]\<rparr>))"

text \<open>\<open>(count * 60.0) / self.window\<close>\<close>

definition per_minute :: "real \<Rightarrow> unique_order_window \<Rightarrow> (py_error + real) \<times> unique_order_window" where
  "per_minute now s =
     (let s' = uow_evict now s; count = int (length (uow_entries s'))
      in (truediv (real_of_int count * 60) (uow_window s'), s'))"

definition active_orders :: "real \<Rightarrow> unique_order_window \<Rightarrow> int \<times> unique_order_window" where
  "active_orders now s =
     (let s' = uow_evict now s in (int (length (uow_entries s')), s'))"

datatype uow_call = UowTrack real "string option" | UowPerMinute real | UowActiveOrders real

fun uow_call_time :: "uow_call \<Rightarrow> real" where
  "uow_call_time (UowTrack now order_id) = now"
| "uow_call_time (UowPerMinute now) = now"
| "uow_call_time (UowActiveOrders now) = now"

fun uow_call_run :: "uow_call \<Rightarrow> unique_order_window \<Rightarrow> unique_order_window" where
  "uow_call_run (UowTrack now order_id) s = uow_track now order_id s"
| "uow_call_run (UowPerMinute now) s = snd (per_minute now s)"
| "uow_call_run (UowActiveOrders now) s = snd (active_orders now s)"

fun uow_run :: "uow_call list \<Rightarrow> unique_order_window \<Rightarrow> unique_order_window" where
  "uow_run [] s = s"
| "uow_run (c # cs) s = uow_run cs (uow_call_run c s)"

text \<open>
  The time of the most recent \<open>track\<close> call of a key in a history, read off the history
  alone (the last matching call wins).
\<close>

fun last_track :: "uow_call list \<Rightarrow> string \<Rightarrow> real option" where
  "last_track [] k = None"
| "last_track (c # cs) k =
     (case last_track cs k of
        Some t \<Rightarrow> Some t
      | None \<Rightarrow> (case c of UowTrack now (Some k') \<Rightarrow> if k' = k \<and> k \<noteq> [] then Some now else None
                 | _ \<Rightarrow> None))"

text \<open>
  What ties a window to its history at a clock reading \<open>tc\<close> that no stored time exceeds:
  the deque is in time order, every key of \<open>_entries\<close> carries the time of its most recent
  \<open>track\<close> and has that entry in the deque, and a tracked key missing from \<open>_entries\<close> was
  last tracked before \<open>tc - window\<close>.
\<close>

definition uow_inv :: "real \<Rightarrow> real \<Rightarrow> uow_call list \<Rightarrow> unique_order_window \<Rightarrow> bool" where
  "uow_inv W tc h s =
     (uow_window s = W \<and>
      sorted (map fst (uow_order s)) \<and>
      (\<forall>p \<in> set (uow_order s). fst p \<le> tc) \<and>
      distinct (map fst (uow_entries s)) \<and>
      (\<forall>k t. map_of (uow_entries s) k = Some t \<longrightarrow>
         (t, k) \<in> set (uow_order s) \<and> last_track h k = Some t) \<and>
      (\<forall>k t. last_track h k = Some t \<longrightarrow> map_of (uow_entries s) k = Some t \<or> t < tc - W))"

subsection \<open>class MetricsAggregator\<close>

text \<open>\<open>self.stats\<close> is a dict with the three fixed keys of its initialiser.\<close>

record stats =
  orders :: int
  inventory :: int
  duplicates :: int

record metrics_aggregator =
  order_window :: unique_order_window
  failure_window :: failure_window
  window_seconds :: int
  stats :: stats

text \<open>Python's \<open>int(x)\<close> on a float truncates towards zero.\<close>

definition py_int :: "real \<Rightarrow> int" where
  "py_int x = (if 0 \<le> x then \<lfloor>x\<rfloor> else \<lceil>x\<rceil>)"

definition MetricsAggregator_init :: "real \<Rightarrow> metrics_aggregator" where
  "MetricsAggregator_init ws =
     \<lparr>order_window = UniqueOrderWindow_init ws,
      failure_window = FailureWindow_init ws,
      window_seconds = py_int ws,
      stats = \<lparr>orders = 0, inventory = 0, duplicates = 0\<rparr>\<rparr>"

definition record_order :: "real \<Rightarrow> string option \<Rightarrow> metrics_aggregator \<Rightarrow> metrics_aggregator" where
  "record_order now order_id m =
     m\<lparr>stats := (stats m)\<lparr>orders := orders (stats m) + 1\<rparr>,
       order_window := uow_track now order_id (order_window m)\<rparr>"

definition record_inventory :: "real \<Rightarrow> bool \<Rightarrow> metrics_aggregator \<Rightarrow> metrics_aggregator" where
  "record_inventory now is_failure m =
     m\<lparr>stats := (stats m)\<lparr>inventory := inventory (stats m) + 1\<rparr>,
       failure_window := fw_track now is_failure (failure_window m)\<rparr>"

definition record_duplicate :: "metrics_aggregator \<Rightarrow> metrics_aggregator" where
  "record_duplicate m = m\<lparr>stats := (stats m)\<lparr>duplicates := duplicates (stats m) + 1\<rparr>\<rparr>"

record snapshot =
  snap_orders_per_min :: real
  snap_inventory_events :: int
  snap_failures :: int
  snap_failure_rate_pct :: real
  snap_window_seconds :: int
  snap_generated_at :: real

text \<open>
  \<open>snapshot\<close> reads the clock four times, in this order: in \<open>failure_window.totals()\<close>
  (\<open>t1\<close>), in \<open>order_window.per_minute()\<close> (\<open>t2\<close>), in
  \<open>failure_window.failure_rate_pct()\<close> (\<open>t3\<close>) and for \<open>generated_at\<close> (\<open>t4\<close>).
  An exception leaves the evictions done before it.
\<close>

definition snapshot ::
  "real \<Rightarrow> real \<Rightarrow> real \<Rightarrow> real \<Rightarrow> metrics_aggregator \<Rightarrow> (py_error + snapshot) \<times> metrics_aggregator" where
  "snapshot t1 t2 t3 t4 m =
     (let r1 = totals t1 (failure_window m);
          inventory_events = fst (fst r1);
          failures = snd (fst r1);
          r2 = per_minute t2 (order_window m);
          m2 = m\<lparr>failure_window := snd r1, order_window := snd r2\<rparr>
      in case fst r2 of
           Inl e \<Rightarrow> (Inl e, m2)
         | Inr opm \<Rightarrow>
             (let r3 = failure_rate_pct t3 (snd r1);
                  m3 = m2\<lparr>failure_window := snd r3\<rparr>
              in case fst r3 of
                   Inl e \<Rightarrow> (Inl e, m3)
                 | Inr rate \<Rightarrow>
                     (Inr \<lparr>snap_orders_per_min = opm,
                           snap_inventory_events = inventory_events,
                           snap_failures = failures,
                           snap_failure_rate_pct = rate,
                           snap_window_seconds = window_seconds m,
                           snap_generated_at = t4\<rparr>,
                      m3)))"

subsection \<open>The payload helpers\<close>

text \<open>What \<open>json.loads\<close> returns.\<close>

datatype json =
    JNull
  | JBool bool
  | JInt int
  | JFloat real
  | JStr string
  | JArr "json list"
  | JObj "(string \<times> json) list"

type_synonym bytes = "8 word list"

text \<open>
  The library functions the module calls are parameters of the model:
  \<^item> \<open>json_loads_utf8 raw\<close> is \<open>json.loads(raw.decode("utf-8"))\<close>, \<open>None\<close> when it raises
    \<open>UnicodeDecodeError\<close> or \<open>json.JSONDecodeError\<close>;
  \<^item> \<open>sha1_json_dumps payload\<close> is
    \<open>sha1(json.dumps(payload, sort_keys=True).encode("utf-8")).hexdigest()\<close>;
  \<^item> \<open>decode_ignore key\<close> is \<open>key.decode("utf-8", errors="ignore")\<close>;
  \<^item> \<open>str_repr v\<close> is \<open>str(v)\<close> for a number, a list or a dict;
  \<^item> \<open>str_lower s\<close> is \<open>s.lower()\<close>.
\<close>

record pylib =
  json_loads_utf8 :: "bytes \<Rightarrow> json option"
  sha1_json_dumps :: "json \<Rightarrow> string"
  decode_ignore :: "bytes \<Rightarrow> string"
  str_repr :: "json \<Rightarrow> string"
  str_lower :: "string \<Rightarrow> string"

definition py_str :: "pylib \<Rightarrow> json \<Rightarrow> string" where
  "py_str L v =
     (case v of
        JStr s \<Rightarrow> s
      | JNull \<Rightarrow> ''None''
      | JBool b \<Rightarrow> (if b then ''True'' else ''False'')
      | _ \<Rightarrow> str_repr L v)"

text \<open>Python's truth value, as \<open>identifier or 'na'\<close> tests it.\<close>

definition truthy :: "json \<Rightarrow> bool" where
  "truthy v =
     (case v of
        JNull \<Rightarrow> False
      | JBool b \<Rightarrow> b
      | JInt i \<Rightarrow> i \<noteq> 0
      | JFloat x \<Rightarrow> x \<noteq> 0
      | JStr s \<Rightarrow> s \<noteq> []
      | JArr xs \<Rightarrow> xs \<noteq> []
      | JObj kvs \<Rightarrow> kvs \<noteq> [])"

definition decode_payload :: "pylib \<Rightarrow> bytes option \<Rightarrow> py_error + json" where
  "decode_payload L raw_value =
     (case raw_value of
        None \<Rightarrow> Inr (JObj [])
      | Some raw \<Rightarrow>
          (case json_loads_utf8 L raw of
             None \<Rightarrow> Inl ValueError
           | Some v \<Rightarrow> Inr v))"

text \<open>
  \<open>_resolve_order_id\<close> and \<open>_event_id\<close> on a payload that is a dict (their annotated
  type); \<open>_handle_message\<close> below decides what a payload of another type does.
  \<open>payload.get("order_id")\<close> is \<open>None\<close> for a missing key.
\<close>

definition resolve_order_id :: "pylib \<Rightarrow> bytes option \<Rightarrow> (string \<times> json) list \<Rightarrow> string option" where
  "resolve_order_id L message_key payload =
     (case map_of payload ''order_id'' of
        Some v \<Rightarrow> Some (py_str L v)
      | None \<Rightarrow>
          (case message_key of
             Some k \<Rightarrow> (let s = decode_ignore L k in if s = [] then None else Some s)
           | None \<Rightarrow> None))"

definition event_id :: "pylib \<Rightarrow> string \<Rightarrow> bytes option \<Rightarrow> (string \<times> json) list \<Rightarrow> string" where
  "event_id L topic message_key payload =
     (let identifier = (case map_of payload ''order_id'' of Some v \<Rightarrow> v | None \<Rightarrow> JNull);
          identifier' = (case message_key of
                           Some k \<Rightarrow> if identifier = JNull then JStr (decode_ignore L k) else identifier
                         | None \<Rightarrow> identifier);
          digest = sha1_json_dumps L (JObj payload)
      in topic @ '':'' @ (if truthy identifier' then py_str L identifier' else ''na'') @ '':'' @ digest)"

subsection \<open>class KafkaAnalyticsWorker\<close>

record env =
  ORDER_TOPIC :: string
  INVENTORY_TOPIC :: string
  WINDOW_SEC :: real
  THROTTLE_MS :: int

text \<open>What \<open>poll\<close> hands over: \<open>msg.topic()\<close>, \<open>msg.key()\<close>, \<open>msg.value()\<close>, \<open>msg.error()\<close>
  and the position that a commit of the message advances.\<close>

record message =
  msg_topic :: string
  msg_key :: "bytes option"
  msg_value :: "bytes option"
  msg_error :: "kafka_code option"
  msg_partition :: int
  msg_offset :: int

text \<open>
  The worker with the aggregator it feeds and the consumer it owns; of the consumer the
  model keeps the list of the messages given to \<open>commit\<close>, in call order.
\<close>

record worker =
  worker_env :: env
  metrics :: metrics_aggregator
  deduper :: duplicate_filter
  commits :: "message list"

definition KafkaAnalyticsWorker_init :: "env \<Rightarrow> metrics_aggregator \<Rightarrow> worker" where
  "KafkaAnalyticsWorker_init e m =
     \<lparr>worker_env = e, metrics = m, deduper = DuplicateFilter_init (WINDOW_SEC e), commits = []\<rparr>"

text \<open>
  \<open>_handle_message\<close>. \<open>t_reg\<close> is the clock reading of \<open>deduper.register\<close>, \<open>t_rec\<close> the
  one of the window's \<open>track\<close>. A decoded payload that is no dict has no \<open>get\<close>:
  \<open>_event_id\<close> raises \<open>AttributeError\<close>, which nothing catches.
\<close>

definition handle_message ::
  "pylib \<Rightarrow> real \<Rightarrow> real \<Rightarrow> string \<Rightarrow> bytes option \<Rightarrow> bytes option \<Rightarrow> worker \<Rightarrow> py_error + worker" where
  "handle_message L t_reg t_rec topic key val w =
     (case decode_payload L val of
        Inl e \<Rightarrow> Inr w
      | Inr (JObj payload) \<Rightarrow>
          (let r = register t_reg (event_id L topic key payload) (deduper w);
               w' = w\<lparr>deduper := snd r\<rparr>
           in if fst r then Inr (w'\<lparr>metrics := record_duplicate (metrics w')\<rparr>)
              else if topic = ORDER_TOPIC (worker_env w)
              then Inr (w'\<lparr>metrics := record_order t_rec (resolve_order_id L key payload) (metrics w')\<rparr>)
              else if topic = INVENTORY_TOPIC (worker_env w)
              then (let status = str_lower L
                                   (py_str L (case map_of payload ''status'' of
                                                Some v \<Rightarrow> v
                                              | None \<Rightarrow> JStr []))
                    in Inr (w'\<lparr>metrics := record_inventory t_rec (status = ''failure'') (metrics w')\<rparr>))
              else Inr w')
      | Inr _ \<Rightarrow> Inl AttributeError)"

text \<open>
  One turn of the loop of \<open>run\<close> on what \<open>poll\<close> returned: \<open>continue\<close> on no message and
  on the two tolerated error codes, \<open>raise KafkaException\<close> on another error, otherwise
  \<open>_handle_message\<close> followed by \<open>commit(message=msg, asynchronous=False)\<close>.
\<close>

definition run_iteration ::
  "pylib \<Rightarrow> real \<Rightarrow> real \<Rightarrow> message option \<Rightarrow> worker \<Rightarrow> py_error + worker" where
  "run_iteration L t_reg t_rec polled w =
     (case polled of
        None \<Rightarrow> Inr w
      | Some msg \<Rightarrow>
          (case msg_error msg of
             Some code \<Rightarrow>
               if code = PARTITION_EOF then Inr w
               else if code = UNKNOWN_TOPIC_OR_PART then Inr w
               else Inl (KafkaException code)
           | None \<Rightarrow>
               (case handle_message L t_reg t_rec (msg_topic msg) (msg_key msg) (msg_value msg) w of
                  Inl e \<Rightarrow> Inl e
                | Inr w' \<Rightarrow> Inr (w'\<lparr>commits := commits w' @ [msg]\<rparr>))))"

text \<open>The loop until the stop flag is set: the polls of that time with their clock readings.\<close>

fun run :: "pylib \<Rightarrow> (message option \<times> real \<times> real) list \<Rightarrow> worker \<Rightarrow> py_error + worker" where
  "run L [] w = Inr w"
| "run L ((polled, t_reg, t_rec) # rest) w =
     (case run_iteration L t_reg t_rec polled w of
        Inl e \<Rightarrow> Inl e
      | Inr w' \<Rightarrow> run L rest w')"

subsection \<open>The round trip of a snapshot, in the words of the specification\<close>

text \<open>
  \<open>failure_rate_pct\<close> equals \<open>100 * failures / inventory_events\<close> whenever
  \<open>inventory_events > 0\<close>, and \<open>0.0\<close> when it is 0, all three read off the same snapshot.
\<close>

definition snapshot_round_trip :: "snapshot \<Rightarrow> bool" where
  "snapshot_round_trip S =
     (snap_failure_rate_pct S =
        (if 0 < snap_inventory_events S
         then 100 * real_of_int (snap_failures S) / real_of_int (snap_inventory_events S)
         else 0))"

subsection \<open>Concrete inputs\<close>

text \<open>
  The library on the few inputs used below: the bytes \<open>{}\<close> and \<open>{"order_id":"A1"}\<close> parse
  to their dicts, the byte \<open>0xFF\<close> (no valid UTF-8) parses to nothing; the digests are
  the SHA-1 values of \<open>json.dumps\<close> of the two dicts; the key \<open>k7\<close> decodes to its text.
\<close>

definition bytes_order_A1 :: bytes where
  "bytes_order_A1 =
     [0x7B, 0x22, 0x6F, 0x72, 0x64, 0x65, 0x72, 0x5F, 0x69, 0x64, 0x22, 0x3A, 0x22, 0x41, 0x31,
      0x22, 0x7D]"

definition example_lib :: pylib where
  "example_lib =
     \<lparr>json_loads_utf8 =
        (\<lambda>raw. if raw = [0x7B, 0x7D] then Some (JObj [])
               else if raw = bytes_order_A1 then Some (JObj [(''order_id'', JStr ''A1'')])
               else None),
      sha1_json_dumps =
        (\<lambda>v. if v = JObj [] then ''bf21a9e8fbc5a3846fb05b4fa0859e0917b2202f''
             else if v = JObj [(''order_id'', JStr ''A1'')]
             then ''4ad87b6fd075d09ba4e30bb27e1d004738712598''
             else []),
      decode_ignore = (\<lambda>raw. if raw = [0x6B, 0x37] then ''k7'' else []),
      str_repr = (\<lambda>v. []),
      str_lower = (\<lambda>s. s)\<rparr>"

definition example_env :: env where
  "example_env =
     \<lparr>ORDER_TOPIC = ''orders'', INVENTORY_TOPIC = ''inventory'', WINDOW_SEC = 60, THROTTLE_MS = 0\<rparr>"

definition example_worker :: worker where
  "example_worker = KafkaAnalyticsWorker_init example_env (MetricsAggregator_init 60)"

text \<open>An order-topic message whose value is the single byte \<open>0xFF\<close>.\<close>

definition corrupt_message :: message where
  "corrupt_message =
     \<lparr>msg_topic = ''orders'', msg_key = None, msg_value = Some [0xFF], msg_error = None,
      msg_partition = 0, msg_offset = 7\<rparr>"

section \<open>Properties\<close>

subsection \<open>FailureWindow\<close>

lemma fw_evict_loop_count:
  "failures = int (length (filter snd events)) \<Longrightarrow>
   snd (fw_evict_loop cutoff events failures) =
     int (length (filter snd (fst (fw_evict_loop cutoff events failures))))"
  by (induction cutoff events failures rule: fw_evict_loop.induct) auto

lemma fw_evict_inv: "fw_inv s \<Longrightarrow> fw_inv (fw_evict now s)"
  using fw_evict_loop_count [of "fw_failures s" "fw_events s" "now - fw_window s"]
  by (simp add: fw_inv_def fw_evict_def Let_def)

lemma fw_track_inv: "fw_inv s \<Longrightarrow> fw_inv (fw_track now b s)"
  unfolding fw_track_def by (rule fw_evict_inv) (simp add: fw_inv_def)

lemma fw_call_run_inv: "fw_inv s \<Longrightarrow> fw_inv (fw_call_run c s)"
  by (cases c) (simp_all add: fw_track_inv fw_evict_inv totals_def failure_rate_pct_def Let_def)

lemma fw_run_inv: "fw_inv s \<Longrightarrow> fw_inv (fw_run cs s)"
  by (induction cs arbitrary: s) (simp_all add: fw_call_run_inv)

lemma fw_init_inv: "fw_inv (FailureWindow_init w)"
  by (simp add: fw_inv_def FailureWindow_init_def)

lemma fw_evict_empty: "fw_events s = [] \<Longrightarrow> fw_evict now s = s"
  by (simp add: fw_evict_def)

lemma totals_bounds:
  "fw_inv s \<Longrightarrow> 0 \<le> snd (fst (totals now s)) \<and> snd (fst (totals now s)) \<le> fst (fst (totals now s))"
  using fw_evict_inv [of s now] by (simp add: totals_def Let_def fw_inv_def)

lemma failure_rate_pct_value:
  "fst (failure_rate_pct now s) =
     Inr (if fst (fst (totals now s)) = 0 then 0
          else real_of_int (snd (fst (totals now s))) / real_of_int (fst (fst (totals now s))) * 100)"
  by (simp add: failure_rate_pct_def Let_def truediv_def)

lemma failure_rate_pct_range:
  assumes "fw_inv s"
  shows "\<exists>r. fst (failure_rate_pct now s) = Inr r \<and> 0 \<le> r \<and> r \<le> 100"
proof -
  let ?t = "fst (fst (totals now s))" and ?f = "snd (fst (totals now s))"
  have b: "0 \<le> ?f" "?f \<le> ?t" using totals_bounds [OF assms, of now] by simp_all
  show ?thesis
  proof (cases "?t = 0")
    case True
    then show ?thesis by (simp add: failure_rate_pct_value)
  next
    case False
    with b have pos: "0 < real_of_int ?t" by simp
    have "real_of_int ?f * 100 / real_of_int ?t \<le> 100" using b pos by (simp add: pos_divide_le_eq)
    moreover have "0 \<le> real_of_int ?f * 100 / real_of_int ?t" using b pos by simp
    ultimately show ?thesis using False by (simp add: failure_rate_pct_value)
  qed
qed

text \<open>
  C6. \<open>failure_rate_pct\<close> on a window with no live entry (none left after the eviction of
  the call, or a fresh window) returns 0.0; on no window and at no time does it raise:
  the division, which would raise on a zero total, is reached only with a non-zero total.
\<close>

theorem C6_failure_rate_pct_empty_window:
  "(fw_events (fw_evict now s) = [] \<longrightarrow> fst (failure_rate_pct now s) = Inr 0) \<and>
   fst (failure_rate_pct now (FailureWindow_init w)) = Inr 0 \<and>
   (\<forall>e. fst (failure_rate_pct now s) \<noteq> Inl e)"
  by (simp add: failure_rate_pct_def totals_def Let_def truediv_def fw_evict_def
      FailureWindow_init_def)

theorem C6_failure_rate_pct_empty_window_witness:
  "fw_events (fw_evict 100 (fw_track 0 True (FailureWindow_init 60))) = [] \<and>
   fst (failure_rate_pct 100 (fw_track 0 True (FailureWindow_init 60))) = Inr 0"
  using C6_failure_rate_pct_empty_window [of 100 "fw_track 0 True (FailureWindow_init 60)"]
  by (simp add: fw_evict_def fw_track_def FailureWindow_init_def Let_def)

text \<open>
  C10. The invariant of \<open>FailureWindow\<close>, that \<open>_failures\<close> is the number of true-flagged
  entries of \<open>_events\<close>, is kept by \<open>track\<close>, \<open>totals\<close> and \<open>failure_rate_pct\<close> at any clock
  reading, and holds after any history of calls on a fresh window. Under it \<open>totals\<close>
  returns \<open>0 \<le> failures \<le> total\<close> and \<open>failure_rate_pct\<close> returns a value in \<open>[0, 100]\<close>.
\<close>

theorem C10_failure_counter_invariant:
  assumes "fw_inv s"
  shows "fw_inv (fw_track now b s) \<and>
         fw_inv (snd (totals now s)) \<and>
         fw_inv (snd (failure_rate_pct now s)) \<and>
         0 \<le> snd (fst (totals now s)) \<and> snd (fst (totals now s)) \<le> fst (fst (totals now s)) \<and>
         (\<exists>r. fst (failure_rate_pct now s) = Inr r \<and> 0 \<le> r \<and> r \<le> 100) \<and>
         fw_inv (fw_run cs (FailureWindow_init w))"
proof -
  have "fw_inv (snd (totals now s))" "fw_inv (snd (failure_rate_pct now s))"
    using assms by (simp_all add: totals_def failure_rate_pct_def Let_def fw_evict_inv)
  then show ?thesis
    using assms totals_bounds [OF assms, of now] failure_rate_pct_range [OF assms, of now]
    by (simp add: fw_track_inv fw_run_inv fw_init_inv)
qed

theorem C10_failure_counter_invariant_witness:
  "fw_inv (fw_track 0 True (FailureWindow_init 60)) \<and>
   fw_inv (fw_track 100 False (fw_track 0 True (FailureWindow_init 60))) \<and>
   fst (totals 100 (fw_track 0 True (FailureWindow_init 60))) = (0, 0) \<and>
   fst (totals 30 (fw_track 0 True (FailureWindow_init 60))) = (1, 1) \<and>
   fst (failure_rate_pct 30 (fw_track 0 True (FailureWindow_init 60))) = Inr 100"
proof -
  have s: "fw_inv (fw_track 0 True (FailureWindow_init 60))"
    by (simp add: fw_inv_def fw_track_def fw_evict_def FailureWindow_init_def Let_def)
  show ?thesis
    using s C10_failure_counter_invariant [OF s, of 100 False]
    by (simp add: totals_def failure_rate_pct_def truediv_def fw_track_def fw_evict_def
        FailureWindow_init_def Let_def)
qed

subsection \<open>DuplicateFilter\<close>

lemma df_evict_loop_fst:
  "fst (df_evict_loop c xs seen) = dropWhile (\<lambda>p. fst p < c) xs"
  by (induction c xs seen rule: df_evict_loop.induct) auto

lemma df_evict_loop_map_of:
  "map_of (snd (df_evict_loop c xs seen)) k =
     (if k \<in> snd ` set (takeWhile (\<lambda>p. fst p < c) xs) then None else map_of seen k)"
  by (induction c xs seen rule: df_evict_loop.induct) (force simp: delete_conv)+

lemma df_evict_loop_distinct:
  "distinct (map fst seen) \<Longrightarrow> distinct (map fst (snd (df_evict_loop c xs seen)))"
  by (induction c xs seen rule: df_evict_loop.induct) (auto simp: distinct_delete)

lemma sorted_dropWhile_set:
  "sorted (map fst xs) \<Longrightarrow>
   set (dropWhile (\<lambda>p. fst p < c) xs) = {p \<in> set xs. \<not> fst p < (c::real)}"
  by (induction xs) (auto)

lemma sorted_takeWhile_set:
  "sorted (map fst xs) \<Longrightarrow>
   set (takeWhile (\<lambda>p. fst p < c) xs) = {p \<in> set xs. fst p < (c::real)}"
  by (induction xs) (auto)

lemma sorted_dropWhile: "sorted (map fst xs) \<Longrightarrow> sorted (map fst (dropWhile P xs))"
  by (induction xs) auto

lemma distinct_dropWhile_snd: "distinct (map snd xs) \<Longrightarrow> distinct (map snd (dropWhile P xs))"
  by (induction xs) auto

lemma df_inv_mono: "df_inv T tc recorded s \<Longrightarrow> tc \<le> tc' \<Longrightarrow> df_inv T tc' recorded s"
  unfolding df_inv_def by (elim conjE, intro conjI) (simp, simp, fastforce, simp, simp, simp, simp, fastforce)


lemma distinct_snd_unique:
  "distinct (map snd xs) \<Longrightarrow> (a, k) \<in> set xs \<Longrightarrow> (b, k) \<in> set xs \<Longrightarrow> a = b"
  by (induction xs) (auto simp: image_iff)

lemma df_evict_ttl [simp]: "df_ttl (df_evict now s) = df_ttl s"
  by (simp add: df_evict_def Let_def)

lemma df_evict_order:
  "df_order (df_evict now s) = dropWhile (\<lambda>p. fst p < now - df_ttl s) (df_order s)"
  by (simp add: df_evict_def Let_def df_evict_loop_fst)

lemma df_evict_seen:
  "map_of (df_seen (df_evict now s)) k =
     (if k \<in> snd ` set (takeWhile (\<lambda>p. fst p < now - df_ttl s) (df_order s)) then None
      else map_of (df_seen s) k)"
  by (simp add: df_evict_def Let_def df_evict_loop_map_of)

lemma df_evict_seen_inv:
  assumes "df_inv T tc recorded s"
  shows "map_of (df_seen (df_evict now s)) k = Some t \<longleftrightarrow>
         (t, k) \<in> set (df_order s) \<and> \<not> t < now - T"
proof -
  let ?c = "now - df_ttl s"
  have T: "df_ttl s = T" and srt: "sorted (map fst (df_order s))"
    and dst: "distinct (map snd (df_order s))"
    and seen: "\<And>k t. map_of (df_seen s) k = Some t \<longleftrightarrow> (t, k) \<in> set (df_order s)"
    using assms by (simp_all add: df_inv_def)
  have tw: "set (takeWhile (\<lambda>p. fst p < ?c) (df_order s)) = {p \<in> set (df_order s). fst p < ?c}"
    by (rule sorted_takeWhile_set [OF srt])
  show ?thesis
  proof
    assume "map_of (df_seen (df_evict now s)) k = Some t"
    then have a: "k \<notin> snd ` set (takeWhile (\<lambda>p. fst p < ?c) (df_order s))"
      and b: "map_of (df_seen s) k = Some t"
      by (simp_all add: df_evict_seen split: if_splits)
    from b have "(t, k) \<in> set (df_order s)" by (simp add: seen)
    moreover from this a tw have "\<not> t < ?c" by force
    ultimately show "(t, k) \<in> set (df_order s) \<and> \<not> t < now - T" by (simp add: T)
  next
    assume h: "(t, k) \<in> set (df_order s) \<and> \<not> t < now - T"
    have "k \<notin> snd ` set (takeWhile (\<lambda>p. fst p < ?c) (df_order s))"
    proof
      assume "k \<in> snd ` set (takeWhile (\<lambda>p. fst p < ?c) (df_order s))"
      then obtain t' where m: "(t', k) \<in> set (df_order s)" and lt: "t' < ?c"
        using tw by force
      from distinct_snd_unique [OF dst m] h have "t' = t" by blast
      with lt h T show False by simp
    qed
    moreover have "map_of (df_seen s) k = Some t" using h by (simp add: seen)
    ultimately show "map_of (df_seen (df_evict now s)) k = Some t"
      by (simp add: df_evict_seen)
  qed
qed

lemma df_evict_inv:
  assumes "df_inv T tc recorded s" and "tc \<le> now"
  shows "df_inv T now recorded (df_evict now s)"
proof -
  have T: "df_ttl s = T" and srt: "sorted (map fst (df_order s))"
    and bnd: "\<forall>p \<in> set (df_order s). fst p \<le> tc"
    and dst: "distinct (map snd (df_order s))"
    and dsn: "distinct (map fst (df_seen s))"
    and r1: "\<And>k t. (t, k) \<in> set (df_order s) \<Longrightarrow> recorded k = Some t"
    and r2: "\<And>k t. recorded k = Some t \<Longrightarrow> (t, k) \<in> set (df_order s) \<or> t < tc - T"
    using assms(1) by (simp_all add: df_inv_def)
  have ord: "set (df_order (df_evict now s)) = {p \<in> set (df_order s). \<not> fst p < now - T}"
    by (simp add: df_evict_order T sorted_dropWhile_set [OF srt])
  have "df_ttl (df_evict now s) = T" by (simp add: T)
  moreover have "sorted (map fst (df_order (df_evict now s)))"
    by (simp add: df_evict_order sorted_dropWhile [OF srt])
  moreover have "\<forall>p \<in> set (df_order (df_evict now s)). fst p \<le> now"
    using bnd assms(2) ord by fastforce
  moreover have "distinct (map snd (df_order (df_evict now s)))"
    by (simp add: df_evict_order distinct_dropWhile_snd [OF dst])
  moreover have "distinct (map fst (df_seen (df_evict now s)))"
    by (simp add: df_evict_def Let_def df_evict_loop_distinct [OF dsn])
  moreover have "\<forall>k t. map_of (df_seen (df_evict now s)) k = Some t \<longleftrightarrow>
      (t, k) \<in> set (df_order (df_evict now s))"
    using df_evict_seen_inv [OF assms(1)] ord by simp
  moreover have "\<forall>k t. (t, k) \<in> set (df_order (df_evict now s)) \<longrightarrow> recorded k = Some t"
    using r1 ord by simp
  moreover have "\<forall>k t. recorded k = Some t \<longrightarrow>
      (t, k) \<in> set (df_order (df_evict now s)) \<or> t < now - T"
  proof (intro allI impI)
    fix k t assume "recorded k = Some t"
    from r2 [OF this] show "(t, k) \<in> set (df_order (df_evict now s)) \<or> t < now - T"
      using assms(2) ord by auto
  qed
  ultimately show ?thesis unfolding df_inv_def by blast
qed


lemma register_result:
  assumes "df_inv T tc recorded s" and "tc \<le> now"
  shows "fst (register now e s) = (\<exists>t. recorded e = Some t \<and> now - t \<le> T)"
proof -
  have r1: "\<And>k t. (t, k) \<in> set (df_order s) \<Longrightarrow> recorded k = Some t"
    and r2: "\<And>k t. recorded k = Some t \<Longrightarrow> (t, k) \<in> set (df_order s) \<or> t < tc - T"
    using assms(1) by (simp_all add: df_inv_def)
  have "fst (register now e s) = (\<exists>t. map_of (df_seen (df_evict now s)) e = Some t)"
    by (simp add: register_def Let_def)
  also have "\<dots> = (\<exists>t. (t, e) \<in> set (df_order s) \<and> \<not> t < now - T)"
    by (simp add: df_evict_seen_inv [OF assms(1)])
  also have "\<dots> = (\<exists>t. recorded e = Some t \<and> now - t \<le> T)"
  proof
    assume "\<exists>t. (t, e) \<in> set (df_order s) \<and> \<not> t < now - T"
    then obtain t where "(t, e) \<in> set (df_order s)" "\<not> t < now - T" by blast
    then have "recorded e = Some t \<and> now - t \<le> T" using r1 by auto
    then show "\<exists>t. recorded e = Some t \<and> now - t \<le> T" ..
  next
    assume "\<exists>t. recorded e = Some t \<and> now - t \<le> T"
    then obtain t where t: "recorded e = Some t" "now - t \<le> T" by blast
    from r2 [OF t(1)] t(2) assms(2) have "(t, e) \<in> set (df_order s) \<and> \<not> t < now - T" by auto
    then show "\<exists>t. (t, e) \<in> set (df_order s) \<and> \<not> t < now - T" ..
  qed
  finally show ?thesis .
qed

lemma register_inv:
  assumes "df_inv T tc recorded s" and "tc \<le> now"
  shows "df_inv T now (if fst (register now e s) then recorded else recorded(e \<mapsto> now))
           (snd (register now e s))"
proof (cases "fst (register now e s)")
  case True
  then have "snd (register now e s) = df_evict now s"
    by (simp add: register_def Let_def split: if_splits)
  with True df_evict_inv [OF assms] show ?thesis by simp
next
  case False
  let ?s1 = "df_evict now s"
  have none: "map_of (df_seen ?s1) e = None"
    using False by (simp add: register_def Let_def split: if_splits)
  have s2: "snd (register now e s) =
      ?s1\<lparr>df_seen := AList.update e now (df_seen ?s1), df_order := df_order ?s1 @ [(now, e)]\<rparr>"
    using False by (simp add: register_def Let_def split: if_splits)
  have inv1: "df_inv T now recorded ?s1" by (rule df_evict_inv [OF assms])
  then have T: "df_ttl ?s1 = T" and srt: "sorted (map fst (df_order ?s1))"
    and bnd: "\<forall>p \<in> set (df_order ?s1). fst p \<le> now"
    and dst: "distinct (map snd (df_order ?s1))"
    and dsn: "distinct (map fst (df_seen ?s1))"
    and seen: "\<And>k t. map_of (df_seen ?s1) k = Some t \<longleftrightarrow> (t, k) \<in> set (df_order ?s1)"
    and r1: "\<And>k t. (t, k) \<in> set (df_order ?s1) \<Longrightarrow> recorded k = Some t"
    and r2: "\<And>k t. recorded k = Some t \<Longrightarrow> (t, k) \<in> set (df_order ?s1) \<or> t < now - T"
    by (simp_all add: df_inv_def)
  have fresh: "\<And>t. (t, e) \<notin> set (df_order ?s1)"
    using none seen by (metis option.distinct(1))
  have "sorted (map fst (df_order ?s1 @ [(now, e)]))"
    using srt bnd by (simp add: sorted_append)
  moreover have "distinct (map snd (df_order ?s1 @ [(now, e)]))"
    using dst fresh by (auto simp: image_iff)
  moreover have "distinct (map fst (AList.update e now (df_seen ?s1)))"
    by (rule distinct_update [OF dsn])
  moreover have "\<forall>k t. map_of (AList.update e now (df_seen ?s1)) k = Some t \<longleftrightarrow>
      (t, k) \<in> set (df_order ?s1 @ [(now, e)])"
    using seen fresh by (auto simp: update_conv')
  moreover have "\<forall>k t. (t, k) \<in> set (df_order ?s1 @ [(now, e)]) \<longrightarrow>
      (recorded(e \<mapsto> now)) k = Some t"
    using r1 fresh by auto
  moreover have "\<forall>k t. (recorded(e \<mapsto> now)) k = Some t \<longrightarrow>
      (t, k) \<in> set (df_order ?s1 @ [(now, e)]) \<or> t < now - T"
    using r2 by (auto split: if_splits)
  ultimately show ?thesis
    using False T bnd unfolding s2 df_inv_def by simp
qed


lemma df_init_inv: "df_inv (max T0 1) tc Map.empty (DuplicateFilter_init T0)"
  by (simp add: df_inv_def DuplicateFilter_init_def)

lemma df_refines:
  "sorted (map fst cs) \<Longrightarrow> \<forall>c \<in> set cs. tc \<le> fst c \<Longrightarrow> df_inv T tc recorded s \<Longrightarrow>
   \<forall>c \<in> set cs. fst c \<le> tc' \<Longrightarrow> tc \<le> tc' \<Longrightarrow>
   df_results cs s = spec_register_results T cs recorded \<and>
   df_inv T tc' (spec_recorded T cs recorded) (df_run cs s)"
proof (induction cs arbitrary: tc recorded s)
  case Nil
  then show ?case by (simp add: df_inv_mono)
next
  case (Cons c cs)
  obtain now e where c: "c = (now, e)" by (cases c)
  let ?rec = "if fst (register now e s) then recorded else recorded(e \<mapsto> now)"
  have le: "tc \<le> now" using Cons.prems(2) c by simp
  have res: "fst (register now e s) = (\<exists>t. recorded e = Some t \<and> now - t \<le> T)"
    by (rule register_result [OF Cons.prems(3) le])
  have inv: "df_inv T now ?rec (snd (register now e s))"
    by (rule register_inv [OF Cons.prems(3) le])
  have ih: "df_results cs (snd (register now e s)) = spec_register_results T cs ?rec \<and>
            df_inv T tc' (spec_recorded T cs ?rec) (df_run cs (snd (register now e s)))"
    using Cons.prems(1,4) c by (intro Cons.IH [OF _ _ inv]) auto
  show ?case
  proof (cases "recorded e")
    case None
    with res ih show ?thesis by (simp add: c)
  next
    case (Some ts)
    with res ih show ?thesis by (cases "now - ts \<le> T") (simp_all add: c)
  qed
qed

text \<open>
  C3. On a filter created with \<open>ttl_seconds = T0\<close> (so \<open>ttl = max T0 1\<close>) and called at
  clock readings that never decrease: the answers of \<open>register\<close> are those of the contract;
  a call answers true exactly when the table of the contract holds the identity with a
  time at most \<open>ttl\<close> before now; when it answers true the filter is only evicted and the
  identity keeps its recorded time (no refresh); when it answers false the identity is
  recorded at the current time, and a later call for it answers true exactly when at most
  \<open>ttl\<close> seconds have passed since.
\<close>

theorem C3_register:
  assumes "sorted (map fst cs @ [now])"
  shows
    "df_results cs (DuplicateFilter_init T0) = spec_register_results (max T0 1) cs Map.empty \<and>
     fst (register now e (df_run cs (DuplicateFilter_init T0))) =
       (\<exists>t. spec_recorded (max T0 1) cs Map.empty e = Some t \<and> now - t \<le> max T0 1) \<and>
     (fst (register now e (df_run cs (DuplicateFilter_init T0))) \<longrightarrow>
        snd (register now e (df_run cs (DuplicateFilter_init T0))) =
          df_evict now (df_run cs (DuplicateFilter_init T0)) \<and>
        map_of (df_seen (snd (register now e (df_run cs (DuplicateFilter_init T0))))) e =
          map_of (df_seen (df_run cs (DuplicateFilter_init T0))) e \<and>
        map_of (df_seen (df_run cs (DuplicateFilter_init T0))) e =
          spec_recorded (max T0 1) cs Map.empty e) \<and>
     (\<not> fst (register now e (df_run cs (DuplicateFilter_init T0))) \<longrightarrow>
        map_of (df_seen (snd (register now e (df_run cs (DuplicateFilter_init T0))))) e = Some now \<and>
        (\<forall>t1 \<ge> now. fst (register t1 e (snd (register now e (df_run cs (DuplicateFilter_init T0))))) =
           (t1 - now \<le> max T0 1)))"
proof -
  let ?T = "max T0 1" and ?s = "df_run cs (DuplicateFilter_init T0)"
  let ?rec = "spec_recorded ?T cs Map.empty"
  have srt: "sorted (map fst cs)" and le: "\<forall>c \<in> set cs. fst c \<le> now"
    using assms by (auto simp: sorted_append)
  have "\<exists>tc. tc \<le> now \<and> (\<forall>c \<in> set cs. tc \<le> fst c)"
  proof (cases cs)
    case Nil
    then show ?thesis by auto
  next
    case (Cons c cs')
    with srt le show ?thesis by (intro exI [of _ "fst c"]) auto
  qed
  then obtain tc where tc: "tc \<le> now" "\<forall>c \<in> set cs. tc \<le> fst c" by blast
  have ref: "df_results cs (DuplicateFilter_init T0) = spec_register_results ?T cs Map.empty"
    and inv: "df_inv ?T now ?rec ?s"
    using df_refines [OF srt tc(2) df_init_inv le tc(1)] by simp_all
  have res: "fst (register now e ?s) = (\<exists>t. ?rec e = Some t \<and> now - t \<le> ?T)"
    by (rule register_result [OF inv order_refl])
  have inv': "df_inv ?T now (if fst (register now e ?s) then ?rec else ?rec(e \<mapsto> now))
      (snd (register now e ?s))"
    by (rule register_inv [OF inv order_refl])
  have dup: "snd (register now e ?s) = df_evict now ?s \<and>
      map_of (df_seen (snd (register now e ?s))) e = map_of (df_seen ?s) e \<and>
      map_of (df_seen ?s) e = ?rec e" if d: "fst (register now e ?s)"
  proof -
    from d res obtain t where t: "?rec e = Some t" "now - t \<le> ?T" by blast
    have ev: "snd (register now e ?s) = df_evict now ?s"
      using d by (simp add: register_def Let_def split: if_splits)
    from inv t have "(t, e) \<in> set (df_order ?s)" unfolding df_inv_def by fastforce
    with inv have a: "map_of (df_seen ?s) e = Some t" unfolding df_inv_def by blast
    from \<open>(t, e) \<in> set (df_order ?s)\<close> t(2)
    have "map_of (df_seen (df_evict now ?s)) e = Some t"
      by (simp add: df_evict_seen_inv [OF inv])
    with ev a t show ?thesis by simp
  qed
  have new: "map_of (df_seen (snd (register now e ?s))) e = Some now \<and>
      (\<forall>t1 \<ge> now. fst (register t1 e (snd (register now e ?s))) = (t1 - now \<le> ?T))"
    if d: "\<not> fst (register now e ?s)"
  proof -
    from d inv' have i2: "df_inv ?T now (?rec(e \<mapsto> now)) (snd (register now e ?s))" by simp
    have "map_of (df_seen (snd (register now e ?s))) e = Some now"
      using d by (simp add: register_def Let_def update_conv' split: if_splits)
    moreover have "fst (register t1 e (snd (register now e ?s))) = (t1 - now \<le> ?T)"
      if "now \<le> t1" for t1
      using register_result [OF i2 that, of e] by simp
    ultimately show ?thesis by blast
  qed
  from ref res dup new show ?thesis by blast
qed

theorem C3_register_witness:
  "sorted (map fst [(0, ''a''), (10, ''b'')] @ [30 :: real]) \<and>
   df_results [(0, ''a''), (10, ''b''), (30, ''a''), (61, ''a''), (70, ''b'')] (DuplicateFilter_init 60)
     = [False, False, True, False, True] \<and>
   fst (register 30 ''a'' (df_run [(0, ''a''), (10, ''b'')] (DuplicateFilter_init 60))) \<and>
   map_of (df_seen (snd (register 30 ''a'' (df_run [(0, ''a''), (10, ''b'')] (DuplicateFilter_init 60))))) ''a''
     = Some 0"
  using C3_register [of "[(0, ''a''), (10, ''b'')]" 30 60 "''a''"]
  by (simp add: register_def df_evict_def DuplicateFilter_init_def Let_def)

subsection \<open>UniqueOrderWindow\<close>

lemma uow_evict_window [simp]: "uow_window (uow_evict now s) = uow_window s"
  by (simp add: uow_evict_def Let_def)

lemma uow_call_run_window [simp]: "uow_window (uow_call_run c s) = uow_window s"
  by (cases c) (simp_all add: uow_track_def per_minute_def active_orders_def Let_def
      split: option.splits)

lemma uow_run_window [simp]: "uow_window (uow_run cs s) = uow_window s"
  by (induction cs arbitrary: s) simp_all

lemma uow_evict_loop_fst:
  "fst (uow_evict_loop c xs entries) = dropWhile (\<lambda>p. fst p < c) xs"
  by (induction c xs entries rule: uow_evict_loop.induct) auto

lemma uow_evict_loop_map_of:
  "map_of (snd (uow_evict_loop c xs entries)) k =
     (case map_of entries k of
        None \<Rightarrow> None
      | Some t \<Rightarrow> if (t, k) \<in> set (takeWhile (\<lambda>p. fst p < c) xs) then None else Some t)"
  by (induction c xs entries rule: uow_evict_loop.induct)
     (auto simp: delete_conv split: option.splits)

lemma uow_evict_loop_distinct:
  "distinct (map fst entries) \<Longrightarrow> distinct (map fst (snd (uow_evict_loop c xs entries)))"
  by (induction c xs entries rule: uow_evict_loop.induct) (auto simp: distinct_delete)

lemma uow_evict_order:
  "uow_order (uow_evict now s) = dropWhile (\<lambda>p. fst p < now - uow_window s) (uow_order s)"
  by (simp add: uow_evict_def Let_def uow_evict_loop_fst)

lemma uow_evict_entries:
  "map_of (uow_entries (uow_evict now s)) k =
     (case map_of (uow_entries s) k of
        None \<Rightarrow> None
      | Some t \<Rightarrow>
          if (t, k) \<in> set (takeWhile (\<lambda>p. fst p < now - uow_window s) (uow_order s)) then None
          else Some t)"
  by (simp add: uow_evict_def Let_def uow_evict_loop_map_of)

lemma last_track_snoc:
  "last_track (h @ [c]) k =
     (case c of
        UowTrack now (Some k') \<Rightarrow> if k' = k \<and> k \<noteq> [] then Some now else last_track h k
      | _ \<Rightarrow> last_track h k)"
  by (induction h) (auto split: option.splits uow_call.splits)

lemma uow_run_snoc: "uow_run (h @ [c]) s = uow_call_run c (uow_run h s)"
  by (induction h arbitrary: s) simp_all

lemma uow_invD:
  assumes "uow_inv W tc h s"
  shows "uow_window s = W"
    and "sorted (map fst (uow_order s))"
    and "\<forall>p \<in> set (uow_order s). fst p \<le> tc"
    and "distinct (map fst (uow_entries s))"
  using assms unfolding uow_inv_def by blast+

lemma uow_invD_entries:
  "uow_inv W tc h s \<Longrightarrow> map_of (uow_entries s) k = Some t \<Longrightarrow>
   (t, k) \<in> set (uow_order s) \<and> last_track h k = Some t"
  unfolding uow_inv_def by blast

lemma uow_invD_last:
  "uow_inv W tc h s \<Longrightarrow> last_track h k = Some t \<Longrightarrow>
   map_of (uow_entries s) k = Some t \<or> t < tc - W"
  unfolding uow_inv_def by blast

lemma uow_invI:
  assumes "uow_window s = W"
    and "sorted (map fst (uow_order s))"
    and "\<forall>p \<in> set (uow_order s). fst p \<le> tc"
    and "distinct (map fst (uow_entries s))"
    and "\<forall>k t. map_of (uow_entries s) k = Some t \<longrightarrow>
           (t, k) \<in> set (uow_order s) \<and> last_track h k = Some t"
    and "\<forall>k t. last_track h k = Some t \<longrightarrow> map_of (uow_entries s) k = Some t \<or> t < tc - W"
  shows "uow_inv W tc h s"
  unfolding uow_inv_def using assms by blast



lemma uow_inv_history:
  assumes "uow_inv W tc h s" and "\<And>k. last_track h' k = last_track h k"
  shows "uow_inv W tc h' s"
proof -
  have "last_track h' = last_track h" using assms(2) by (rule ext)
  with assms(1) show ?thesis unfolding uow_inv_def by presburger
qed

lemma uow_inv_mono:
  assumes a: "uow_inv W tc h s" and le: "tc \<le> tc'"
  shows "uow_inv W tc' h s"
proof (rule uow_invI)
  show "uow_window s = W" by (rule uow_invD(1) [OF a])
  show "sorted (map fst (uow_order s))" by (rule uow_invD(2) [OF a])
  show "distinct (map fst (uow_entries s))" by (rule uow_invD(4) [OF a])
  show "\<forall>p \<in> set (uow_order s). fst p \<le> tc'"
    using uow_invD(3) [OF a] le by fastforce
  show "\<forall>k t. map_of (uow_entries s) k = Some t \<longrightarrow>
      (t, k) \<in> set (uow_order s) \<and> last_track h k = Some t"
    using uow_invD_entries [OF a] by blast
  show "\<forall>k t. last_track h k = Some t \<longrightarrow> map_of (uow_entries s) k = Some t \<or> t < tc' - W"
  proof (intro allI impI)
    fix k t assume "last_track h k = Some t"
    from uow_invD_last [OF a this] le show "map_of (uow_entries s) k = Some t \<or> t < tc' - W"
      by linarith
  qed
qed

lemma uow_evict_entries_inv:
  assumes "uow_inv W tc h s"
  shows "map_of (uow_entries (uow_evict now s)) k = Some t \<longleftrightarrow>
         map_of (uow_entries s) k = Some t \<and> \<not> t < now - W"
proof -
  have W: "uow_window s = W" and srt: "sorted (map fst (uow_order s))"
    by (rule uow_invD [OF assms])+
  have tw: "set (takeWhile (\<lambda>p. fst p < now - W) (uow_order s)) =
      {p \<in> set (uow_order s). fst p < now - W}"
    by (rule sorted_takeWhile_set [OF srt])
  show ?thesis
  proof (cases "map_of (uow_entries s) k")
    case None
    then show ?thesis by (simp add: uow_evict_entries)
  next
    case (Some t')
    from uow_invD_entries [OF assms Some]
    have "(t', k) \<in> set (takeWhile (\<lambda>p. fst p < now - W) (uow_order s)) \<longleftrightarrow> t' < now - W"
      by (simp add: tw)
    with Some show ?thesis by (auto simp: uow_evict_entries W)
  qed
qed


lemma uow_evict_inv:
  assumes a: "uow_inv W tc h s" and le: "tc \<le> now"
  shows "uow_inv W now h (uow_evict now s)"
proof (rule uow_invI)
  have W: "uow_window s = W" and srt: "sorted (map fst (uow_order s))"
    and bnd: "\<forall>p \<in> set (uow_order s). fst p \<le> tc"
    and dst: "distinct (map fst (uow_entries s))"
    by (rule uow_invD [OF a])+
  have ord: "set (uow_order (uow_evict now s)) = {p \<in> set (uow_order s). \<not> fst p < now - W}"
    by (simp add: uow_evict_order W sorted_dropWhile_set [OF srt])
  show "uow_window (uow_evict now s) = W" by (simp add: W)
  show "sorted (map fst (uow_order (uow_evict now s)))"
    by (simp add: uow_evict_order sorted_dropWhile [OF srt])
  show "\<forall>p \<in> set (uow_order (uow_evict now s)). fst p \<le> now"
    using bnd le ord by fastforce
  show "distinct (map fst (uow_entries (uow_evict now s)))"
    by (simp add: uow_evict_def Let_def uow_evict_loop_distinct [OF dst])
  show "\<forall>k t. map_of (uow_entries (uow_evict now s)) k = Some t \<longrightarrow>
      (t, k) \<in> set (uow_order (uow_evict now s)) \<and> last_track h k = Some t"
  proof (intro allI impI)
    fix k t assume "map_of (uow_entries (uow_evict now s)) k = Some t"
    then have m: "map_of (uow_entries s) k = Some t" and nl: "\<not> t < now - W"
      by (simp_all add: uow_evict_entries_inv [OF a])
    from uow_invD_entries [OF a m] nl
    show "(t, k) \<in> set (uow_order (uow_evict now s)) \<and> last_track h k = Some t"
      by (simp add: ord)
  qed
  show "\<forall>k t. last_track h k = Some t \<longrightarrow>
      map_of (uow_entries (uow_evict now s)) k = Some t \<or> t < now - W"
  proof (intro allI impI)
    fix k t assume "last_track h k = Some t"
    from uow_invD_last [OF a this]
    show "map_of (uow_entries (uow_evict now s)) k = Some t \<or> t < now - W"
    proof
      assume "map_of (uow_entries s) k = Some t"
      then show ?thesis by (cases "t < now - W") (simp_all add: uow_evict_entries_inv [OF a])
    next
      assume "t < tc - W"
      with le show ?thesis by simp
    qed
  qed
qed

lemma uow_insert_inv:
  assumes a: "uow_inv W tc h s" and le: "tc \<le> now" and ne: "k \<noteq> []"
  shows "uow_inv W now (h @ [UowTrack now (Some k)])
           (s\<lparr>uow_entries := AList.update k now (uow_entries s),
              uow_order := uow_order s @ [(now, k)]\<rparr>)"
proof (rule uow_invI)
  let ?s' = "s\<lparr>uow_entries := AList.update k now (uow_entries s),
                uow_order := uow_order s @ [(now, k)]\<rparr>"
  let ?h' = "h @ [UowTrack now (Some k)]"
  have W: "uow_window s = W" and srt: "sorted (map fst (uow_order s))"
    and bnd: "\<forall>p \<in> set (uow_order s). fst p \<le> tc"
    and dst: "distinct (map fst (uow_entries s))"
    by (rule uow_invD [OF a])+
  have lt_k: "last_track ?h' k = Some now" using ne by (simp add: last_track_snoc)
  have lt_o: "last_track ?h' k' = last_track h k'" if "k' \<noteq> k" for k'
    using that by (simp add: last_track_snoc)
  have m_k: "map_of (uow_entries ?s') k = Some now" by (simp add: update_conv')
  have m_o: "map_of (uow_entries ?s') k' = map_of (uow_entries s) k'" if "k' \<noteq> k" for k'
    using that by (simp add: update_conv')
  show "uow_window ?s' = W" using W by simp
  show "sorted (map fst (uow_order ?s'))"
    using srt bnd le by (fastforce simp: sorted_append)
  show "\<forall>p \<in> set (uow_order ?s'). fst p \<le> now"
    using bnd le by fastforce
  show "distinct (map fst (uow_entries ?s'))"
    using distinct_update [OF dst] by simp
  show "\<forall>k' t. map_of (uow_entries ?s') k' = Some t \<longrightarrow>
      (t, k') \<in> set (uow_order ?s') \<and> last_track ?h' k' = Some t"
  proof (intro allI impI)
    fix k' t assume m: "map_of (uow_entries ?s') k' = Some t"
    show "(t, k') \<in> set (uow_order ?s') \<and> last_track ?h' k' = Some t"
    proof (cases "k' = k")
      case True
      with m m_k lt_k show ?thesis by simp
    next
      case False
      with m m_o have "map_of (uow_entries s) k' = Some t" by simp
      from uow_invD_entries [OF a this] lt_o [OF False] show ?thesis by simp
    qed
  qed
  show "\<forall>k' t. last_track ?h' k' = Some t \<longrightarrow>
      map_of (uow_entries ?s') k' = Some t \<or> t < now - W"
  proof (intro allI impI)
    fix k' t assume l: "last_track ?h' k' = Some t"
    show "map_of (uow_entries ?s') k' = Some t \<or> t < now - W"
    proof (cases "k' = k")
      case True
      with l lt_k m_k show ?thesis by simp
    next
      case False
      with l lt_o have "last_track h k' = Some t" by simp
      from uow_invD_last [OF a this] m_o [OF False] le show ?thesis by auto
    qed
  qed
qed


lemma uow_call_inv:
  assumes a: "uow_inv W tc h s" and le: "tc \<le> uow_call_time c"
  shows "uow_inv W (uow_call_time c) (h @ [c]) (uow_call_run c s)"
proof (cases c)
  case (UowTrack now oid)
  show ?thesis
  proof (cases "\<exists>k. oid = Some k \<and> k \<noteq> []")
    case True
    then obtain k where k: "oid = Some k" "k \<noteq> []" by blast
    have "tc \<le> now" using le UowTrack by simp
    from uow_evict_inv [OF uow_insert_inv [OF a this k(2)] order_refl]
    show ?thesis by (simp add: UowTrack k uow_track_def)
  next
    case False
    then have same: "uow_call_run c s = s"
      by (auto simp: UowTrack uow_track_def split: option.splits)
    have lt: "last_track (h @ [c]) k = last_track h k" for k
      using False by (auto simp: UowTrack last_track_snoc split: option.splits)
    have "uow_inv W (uow_call_time c) h s" by (rule uow_inv_mono [OF a le])
    then have "uow_inv W (uow_call_time c) (h @ [c]) s" by (rule uow_inv_history) (rule lt)
    then show ?thesis by (simp add: same)
  qed
next
  case (UowPerMinute now)
  have lt: "last_track (h @ [c]) k = last_track h k" for k
    by (simp add: UowPerMinute last_track_snoc)
  have "uow_inv W now h (uow_evict now s)"
    using le UowPerMinute by (intro uow_evict_inv [OF a]) simp
  then have "uow_inv W now (h @ [c]) (uow_evict now s)" by (rule uow_inv_history) (rule lt)
  then show ?thesis by (simp add: UowPerMinute per_minute_def Let_def)
next
  case (UowActiveOrders now)
  have lt: "last_track (h @ [c]) k = last_track h k" for k
    by (simp add: UowActiveOrders last_track_snoc)
  have "uow_inv W now h (uow_evict now s)"
    using le UowActiveOrders by (intro uow_evict_inv [OF a]) simp
  then have "uow_inv W now (h @ [c]) (uow_evict now s)" by (rule uow_inv_history) (rule lt)
  then show ?thesis by (simp add: UowActiveOrders active_orders_def Let_def)
qed

lemma uow_init_inv: "uow_inv (max w 1) tc [] (UniqueOrderWindow_init w)"
  by (rule uow_invI) (simp_all add: UniqueOrderWindow_init_def)

lemma uow_run_inv:
  "sorted (map uow_call_time h) \<Longrightarrow> \<forall>c \<in> set h. uow_call_time c \<le> tc \<Longrightarrow>
   uow_inv (max w 1) tc h (uow_run h (UniqueOrderWindow_init w))"
proof (induction h arbitrary: tc rule: rev_induct)
  case Nil
  show ?case by (simp add: uow_init_inv)
next
  case (snoc c h)
  have srt: "sorted (map uow_call_time h)" and before: "\<forall>c' \<in> set h. uow_call_time c' \<le> uow_call_time c"
    using snoc.prems(1) by (simp_all add: sorted_append)
  have "uow_inv (max w 1) (uow_call_time c) h (uow_run h (UniqueOrderWindow_init w))"
    by (rule snoc.IH [OF srt before])
  from uow_call_inv [OF this order_refl]
  have "uow_inv (max w 1) (uow_call_time c) (h @ [c]) (uow_run (h @ [c]) (UniqueOrderWindow_init w))"
    by (simp add: uow_run_snoc)
  moreover have "uow_call_time c \<le> tc" using snoc.prems(2) by simp
  ultimately show ?case by (rule uow_inv_mono)
qed

lemma uow_live_entries:
  assumes "sorted (map uow_call_time h @ [now])"
  shows "map_of (uow_entries (uow_evict now (uow_run h (UniqueOrderWindow_init w)))) k = Some t \<longleftrightarrow>
         last_track h k = Some t \<and> now - t \<le> max w 1"
proof -
  let ?s = "uow_run h (UniqueOrderWindow_init w)"
  have "sorted (map uow_call_time h)" "\<forall>c \<in> set h. uow_call_time c \<le> now"
    using assms by (auto simp: sorted_append)
  then have inv: "uow_inv (max w 1) now h ?s" by (rule uow_run_inv)
  show ?thesis
  proof
    assume "map_of (uow_entries (uow_evict now ?s)) k = Some t"
    then have m: "map_of (uow_entries ?s) k = Some t" and nl: "\<not> t < now - max w 1"
      by (simp_all add: uow_evict_entries_inv [OF inv])
    from uow_invD_entries [OF inv m] nl show "last_track h k = Some t \<and> now - t \<le> max w 1"
      by auto
  next
    assume l: "last_track h k = Some t \<and> now - t \<le> max w 1"
    with uow_invD_last [OF inv, of k t] have "map_of (uow_entries ?s) k = Some t" by auto
    with l show "map_of (uow_entries (uow_evict now ?s)) k = Some t"
      by (simp add: uow_evict_entries_inv [OF inv])
  qed
qed

lemma uow_live_distinct:
  assumes "sorted (map uow_call_time h @ [now])"
  shows "distinct (map fst (uow_entries (uow_evict now (uow_run h (UniqueOrderWindow_init w)))))"
proof -
  have "sorted (map uow_call_time h)" "\<forall>c \<in> set h. uow_call_time c \<le> now"
    using assms by (auto simp: sorted_append)
  then have "uow_inv (max w 1) now h (uow_run h (UniqueOrderWindow_init w))" by (rule uow_run_inv)
  from uow_invD(4) [OF uow_evict_inv [OF this order_refl]] show ?thesis .
qed

text \<open>
  C4. On a window created with \<open>window_seconds = w\<close> (so \<open>window = max w 1\<close>), after any
  history of \<open>track\<close>, \<open>per_minute\<close> and \<open>active_orders\<close> calls at clock readings that never
  decrease, \<open>active_orders\<close> at a reading \<open>now\<close> counts exactly the keys whose most recent
  \<open>track\<close> is at most \<open>window\<close> seconds old: a key last tracked longer ago is never
  counted, and a key tracked again stays counted, under the time of its latest \<open>track\<close>,
  until \<open>window\<close> seconds after it, whatever became of its earlier entries.
\<close>

theorem C4_unique_order_window:
  assumes "sorted (map uow_call_time h @ [now])"
  shows
    "fst ` set (uow_entries (snd (active_orders now (uow_run h (UniqueOrderWindow_init w))))) =
       {k. \<exists>t. last_track h k = Some t \<and> now - t \<le> max w 1} \<and>
     fst (active_orders now (uow_run h (UniqueOrderWindow_init w))) =
       int (card {k. \<exists>t. last_track h k = Some t \<and> now - t \<le> max w 1}) \<and>
     (\<forall>k t. map_of (uow_entries (snd (active_orders now (uow_run h (UniqueOrderWindow_init w))))) k = Some t
        \<longleftrightarrow> last_track h k = Some t \<and> now - t \<le> max w 1)"
proof -
  let ?e = "uow_entries (uow_evict now (uow_run h (UniqueOrderWindow_init w)))"
  let ?live = "{k. \<exists>t. last_track h k = Some t \<and> now - t \<le> max w 1}"
  have m: "map_of ?e k = Some t \<longleftrightarrow> last_track h k = Some t \<and> now - t \<le> max w 1" for k t
    by (rule uow_live_entries [OF assms])
  have "dom (map_of ?e) = ?live" using m by (auto simp: dom_def)
  then have keys: "fst ` set ?e = ?live" by (simp add: dom_map_of_conv_image_fst)
  have "length ?e = card (set (map fst ?e))"
    using distinct_card [OF uow_live_distinct [OF assms, of w]] by simp
  with keys have "int (length ?e) = int (card ?live)" by simp
  with keys m show ?thesis by (simp add: active_orders_def Let_def)
qed

theorem C4_unique_order_window_witness:
  "sorted (map uow_call_time [UowTrack 0 (Some ''X''), UowTrack 40 (Some ''X'')] @ [61 :: real]) \<and>
   fst (active_orders 61 (uow_run [UowTrack 0 (Some ''X''), UowTrack 40 (Some ''X'')]
          (UniqueOrderWindow_init 60))) = 1 \<and>
   fst (active_orders 30 (uow_run [UowTrack 0 (Some ''X'')] (UniqueOrderWindow_init 60))) = 1 \<and>
   fst (active_orders 61 (uow_run [UowTrack 0 (Some ''X'')] (UniqueOrderWindow_init 60))) = 0 \<and>
   map_of (uow_entries (snd (active_orders 61 (uow_run [UowTrack 0 (Some ''X''), UowTrack 40 (Some ''X'')]
          (UniqueOrderWindow_init 60))))) ''X'' = Some 40"
  using C4_unique_order_window [of "[UowTrack 0 (Some ''X''), UowTrack 40 (Some ''X'')]" 61 60]
  by (simp add: active_orders_def uow_track_def uow_evict_def UniqueOrderWindow_init_def Let_def)

lemma uow_live_count:
  assumes "sorted (map uow_call_time h @ [now])"
  shows "length (uow_entries (uow_evict now (uow_run h (UniqueOrderWindow_init w)))) =
         card {k. \<exists>t. last_track h k = Some t \<and> now - t \<le> max w 1}"
proof -
  let ?e = "uow_entries (uow_evict now (uow_run h (UniqueOrderWindow_init w)))"
  let ?live = "{k. \<exists>t. last_track h k = Some t \<and> now - t \<le> max w 1}"
  have "dom (map_of ?e) = ?live"
    using uow_live_entries [OF assms, of w] by (auto simp: dom_def)
  then have keys: "set (map fst ?e) = ?live" by (simp add: dom_map_of_conv_image_fst)
  have "length ?e = card (set (map fst ?e))"
    using distinct_card [OF uow_live_distinct [OF assms, of w]] by simp
  with keys show ?thesis by simp
qed

text \<open>
  C7. On a window created with \<open>window_seconds = w\<close>, after any history of calls at clock
  readings that never decrease, \<open>per_minute\<close> at a reading \<open>now\<close> returns, without raising,
  the number of live keys times 60 divided by the clamped window \<open>max w 1\<close>, where the live
  keys are those whose most recent \<open>track\<close> is at most \<open>max w 1\<close> seconds before \<open>now\<close>; that
  number is what \<open>active_orders\<close> returns at the same reading. For any history at all,
  \<open>per_minute\<close> is the count of \<open>active_orders\<close> at the same reading times 60 over the
  clamped window, and both calls leave the same window.
\<close>

theorem C7_per_minute:
  "(sorted (map uow_call_time h @ [now]) \<longrightarrow>
      fst (per_minute now (uow_run h (UniqueOrderWindow_init w))) =
        Inr (real (card {k. \<exists>t. last_track h k = Some t \<and> now - t \<le> max w 1}) * 60 / max w 1) \<and>
      fst (active_orders now (uow_run h (UniqueOrderWindow_init w))) =
        int (card {k. \<exists>t. last_track h k = Some t \<and> now - t \<le> max w 1})) \<and>
   fst (per_minute now (uow_run h (UniqueOrderWindow_init w))) =
     Inr (real_of_int (fst (active_orders now (uow_run h (UniqueOrderWindow_init w)))) * 60 / max w 1) \<and>
   snd (per_minute now (uow_run h (UniqueOrderWindow_init w))) =
     snd (active_orders now (uow_run h (UniqueOrderWindow_init w))) \<and>
   uow_window (uow_run h (UniqueOrderWindow_init w)) = max w 1 \<and> 1 \<le> max w 1"
proof -
  have w: "uow_window (uow_run h (UniqueOrderWindow_init w)) = max w 1"
    by (simp add: UniqueOrderWindow_init_def)
  have pos: "max w 1 \<noteq> 0" by simp
  show ?thesis
    using w pos uow_live_count [of h now w]
    by (simp add: per_minute_def active_orders_def Let_def truediv_def)
qed

theorem C7_per_minute_witness:
  "sorted (map uow_call_time [UowTrack 0 (Some ''X''), UowTrack 10 (Some ''Y''), UowTrack 20 (Some ''X'')]
     @ [45 :: real]) \<and>
   card {k. \<exists>t. last_track [UowTrack 0 (Some ''X''), UowTrack 10 (Some ''Y''), UowTrack 20 (Some ''X'')] k
                  = Some t \<and> 45 - t \<le> max 30 (1 :: real)} = 1 \<and>
   fst (per_minute 45 (uow_run [UowTrack 0 (Some ''X''), UowTrack 10 (Some ''Y''), UowTrack 20 (Some ''X'')]
          (UniqueOrderWindow_init 30))) = Inr 2 \<and>
   fst (per_minute 25 (uow_run [UowTrack 0 (Some ''X''), UowTrack 10 (Some ''Y''), UowTrack 20 (Some ''X'')]
          (UniqueOrderWindow_init 30))) = Inr 4"
proof -
  let ?h = "[UowTrack 0 (Some ''X''), UowTrack 10 (Some ''Y''), UowTrack 20 (Some ''X'')]"
  have s: "sorted (map uow_call_time ?h @ [45 :: real])" by simp
  have p: "fst (per_minute 45 (uow_run ?h (UniqueOrderWindow_init 30))) = Inr 2"
    "fst (per_minute 25 (uow_run ?h (UniqueOrderWindow_init 30))) = Inr 4"
    by (simp_all add: per_minute_def truediv_def uow_track_def uow_evict_def
        UniqueOrderWindow_init_def Let_def)
  from C7_per_minute [of ?h 45 30] s p(1)
  have "real (card {k. \<exists>t. last_track ?h k = Some t \<and> 45 - t \<le> max 30 (1 :: real)}) * 60 / max 30 1
        = (2 :: real)"
    by simp
  then have "card {k. \<exists>t. last_track ?h k = Some t \<and> 45 - t \<le> max 30 (1 :: real)} = 1"
    by simp
  with s p show ?thesis by simp
qed

subsection \<open>KafkaAnalyticsWorker and MetricsAggregator\<close>

text \<open>
  C1, as stated, fails. The message whose value is the byte \<open>0xFF\<close> does not decode, and
  the turn of the loop that polled it ends with the message given to \<open>commit\<close>:
  \<open>_handle_message\<close> returns normally after logging, and \<open>run\<close> commits after every
  return of \<open>_handle_message\<close>.
\<close>

theorem C1_corrupt_message_committed:
  "decode_payload example_lib (msg_value corrupt_message) = Inl ValueError \<and>
   run_iteration example_lib 0 0 (Some corrupt_message) example_worker =
     Inr (example_worker\<lparr>commits := [corrupt_message]\<rparr>)"
  by (simp add: decode_payload_def run_iteration_def handle_message_def example_lib_def
      corrupt_message_def example_worker_def KafkaAnalyticsWorker_init_def bytes_order_A1_def)

text \<open>
  C1, amended. When the payload of a polled message (one without a bus error) does not
  decode, \<open>_handle_message\<close> leaves the worker as it was: nothing is registered with the
  filter and no \<open>record_order\<close>, \<open>record_inventory\<close> or \<open>record_duplicate\<close> happens, so the
  aggregator, and with it every later snapshot, is what it would be without the message.
  The loop then commits the message, as it does after every handled message.
\<close>

theorem C1_decode_failure:
  assumes "msg_error msg = None" and "decode_payload L (msg_value msg) = Inl e"
  shows "handle_message L t_reg t_rec (msg_topic msg) (msg_key msg) (msg_value msg) w = Inr w \<and>
         run_iteration L t_reg t_rec (Some msg) w = Inr (w\<lparr>commits := commits w @ [msg]\<rparr>) \<and>
         (\<exists>w'. run L [(Some msg, t_reg, t_rec)] w = Inr w' \<and>
               metrics w' = metrics w \<and> deduper w' = deduper w)"
  using assms by (simp add: run_iteration_def handle_message_def)

theorem C1_decode_failure_witness:
  "msg_error corrupt_message = None \<and>
   decode_payload example_lib (msg_value corrupt_message) = Inl ValueError \<and>
   handle_message example_lib 0 0 (msg_topic corrupt_message) (msg_key corrupt_message)
     (msg_value corrupt_message) example_worker = Inr example_worker \<and>
   run_iteration example_lib 0 0 (Some corrupt_message) example_worker =
     Inr (example_worker\<lparr>commits := commits example_worker @ [corrupt_message]\<rparr>)"
  using C1_decode_failure [of corrupt_message example_lib ValueError 0 0 example_worker]
  by (simp add: decode_payload_def example_lib_def corrupt_message_def bytes_order_A1_def)

text \<open>
  C2. The round trip of the claim fails on the code at this input: a one-second window,
  one failure recorded at time 0, and a snapshot whose first clock reading is 1 and whose
  third is 1025/1024. \<open>totals\<close> at the first reading still holds the event (its time is
  not below the cutoff 0), so the snapshot reports one inventory event and one failure;
  \<open>failure_rate_pct\<close> evicts again at the third reading, finds the window empty and
  reports the rate 0.0, where the round trip asks for 100.
\<close>

theorem C2_snapshot_torn:
  "fst (snapshot 1 1 (1025 / 1024) (1025 / 1024) (record_inventory 0 True (MetricsAggregator_init 1))) =
     Inr \<lparr>snap_orders_per_min = 0, snap_inventory_events = 1, snap_failures = 1,
          snap_failure_rate_pct = 0, snap_window_seconds = 1, snap_generated_at = 1025 / 1024\<rparr> \<and>
   \<not> snapshot_round_trip
        \<lparr>snap_orders_per_min = 0, snap_inventory_events = 1, snap_failures = 1,
         snap_failure_rate_pct = 0, snap_window_seconds = 1, snap_generated_at = 1025 / 1024\<rparr>"
  by (simp add: snapshot_def totals_def per_minute_def failure_rate_pct_def truediv_def
      record_inventory_def MetricsAggregator_init_def FailureWindow_init_def
      UniqueOrderWindow_init_def fw_track_def fw_evict_def uow_evict_def py_int_def
      snapshot_round_trip_def Let_def)





lemma df_run_inv:
  assumes "sorted (map fst cs @ [now])"
  shows "df_inv (max T0 1) now (spec_recorded (max T0 1) cs Map.empty)
           (df_run cs (DuplicateFilter_init T0))"
proof -
  have srt: "sorted (map fst cs)" and le: "\<forall>c \<in> set cs. fst c \<le> now"
    using assms by (auto simp: sorted_append)
  have "\<exists>tc. tc \<le> now \<and> (\<forall>c \<in> set cs. tc \<le> fst c)"
  proof (cases cs)
    case Nil
    then show ?thesis by auto
  next
    case (Cons c cs')
    with srt le show ?thesis by (intro exI [of _ "fst c"]) auto
  qed
  then obtain tc where tc: "tc \<le> now" "\<forall>c \<in> set cs. tc \<le> fst c" by blast
  from df_refines [OF srt tc(2) df_init_inv le tc(1)] show ?thesis by simp
qed

lemma uow_track_tracked:
  assumes "0 \<le> uow_window s" and "k \<noteq> []"
  shows "map_of (uow_entries (uow_track now (Some k) s)) k = Some now"
proof -
  let ?xs = "uow_order s @ [(now, k)]"
  have "(now, k) \<notin> set (takeWhile (\<lambda>p. fst p < now - uow_window s) ?xs)"
  proof
    assume "(now, k) \<in> set (takeWhile (\<lambda>p. fst p < now - uow_window s) ?xs)"
    then have "fst (now, k) < now - uow_window s" by (rule set_takeWhileD [THEN conjunct2])
    with assms(1) show False by simp
  qed
  then show ?thesis
    using assms(2) by (simp add: uow_track_def uow_evict_entries update_conv')
qed

lemma register_seen:
  assumes "df_inv T tc recorded d" and "tc \<le> now"
  shows "fst (register now e d) = (\<exists>ts. map_of (df_seen d) e = Some ts \<and> now - ts \<le> T)"
proof -
  have seen: "\<And>k t. map_of (df_seen d) k = Some t \<longleftrightarrow> (t, k) \<in> set (df_order d)"
    using assms(1) unfolding df_inv_def by blast
  have "fst (register now e d) = (\<exists>t. map_of (df_seen (df_evict now d)) e = Some t)"
    by (simp add: register_def Let_def)
  also have "\<dots> = (\<exists>t. (t, e) \<in> set (df_order d) \<and> \<not> t < now - T)"
    by (simp add: df_evict_seen_inv [OF assms(1)])
  also have "\<dots> = (\<exists>ts. map_of (df_seen d) e = Some ts \<and> now - ts \<le> T)"
    by (auto simp: seen)
  finally show ?thesis .
qed

lemma register_no_refresh:
  assumes "df_inv T tc recorded d" and "fst (register now e d)"
  shows "map_of (df_seen (snd (register now e d))) e = map_of (df_seen d) e"
proof -
  have seen: "\<And>k t. map_of (df_seen d) k = Some t \<longleftrightarrow> (t, k) \<in> set (df_order d)"
    using assms(1) unfolding df_inv_def by blast
  have ev: "snd (register now e d) = df_evict now d"
    using assms(2) by (simp add: register_def Let_def split: if_splits)
  from assms(2) obtain t where t: "map_of (df_seen (df_evict now d)) e = Some t"
    by (auto simp: register_def Let_def split: if_splits)
  then have "(t, e) \<in> set (df_order d)" by (simp add: df_evict_seen_inv [OF assms(1)])
  then have "map_of (df_seen d) e = Some t" by (simp add: seen)
  with t ev show ?thesis by simp
qed

lemma handle_message_first_duplicates:
  assumes "decode_payload L val = Inr (JObj p)"
    and "\<not> fst (register t (event_id L topic key p) (deduper w))"
  shows "\<exists>w'. handle_message L t tr topic key val w = Inr w' \<and>
              duplicates (stats (metrics w')) = duplicates (stats (metrics w))"
  using assms
  by (cases "topic = ORDER_TOPIC (worker_env w)"; cases "topic = INVENTORY_TOPIC (worker_env w)")
     (simp_all add: handle_message_def Let_def record_order_def record_inventory_def)

lemma handle_message_registers:
  assumes "decode_payload L val = Inr (JObj p)"
  shows "\<exists>w'. handle_message L t tr topic key val w = Inr w' \<and>
              deduper w' = snd (register t (event_id L topic key p) (deduper w))"
  using assms
  by (cases "fst (register t (event_id L topic key p) (deduper w))";
      cases "topic = ORDER_TOPIC (worker_env w)"; cases "topic = INVENTORY_TOPIC (worker_env w)")
     (simp_all add: handle_message_def Let_def)

text \<open>
  C8, as stated, fails in its consequence. The same order message (same topic, key and
  body, hence the same identity) is delivered at times 0, 60 and 61 to a worker with a
  60 second filter: the delivery at 60 is counted as a duplicate, and the delivery at 61,
  one second later, is recorded as a new order, because the identity's recorded time is
  still 0 and has expired. Identical redeliveries do not always deduplicate.
\<close>

theorem C8_redelivery_recorded_as_new:
  "(case handle_message example_lib 0 0 ''orders'' None (Some bytes_order_A1) example_worker of
      Inl e \<Rightarrow> False
    | Inr w1 \<Rightarrow>
        (case handle_message example_lib 60 60 ''orders'' None (Some bytes_order_A1) w1 of
           Inl e \<Rightarrow> False
         | Inr w2 \<Rightarrow>
             stats (metrics w2) = \<lparr>orders = 1, inventory = 0, duplicates = 1\<rparr> \<and>
             (case handle_message example_lib 61 61 ''orders'' None (Some bytes_order_A1) w2 of
                Inl e \<Rightarrow> False
              | Inr w3 \<Rightarrow> stats (metrics w3) = \<lparr>orders = 2, inventory = 0, duplicates = 1\<rparr>)))"
  by (simp add: decode_payload_def example_lib_def bytes_order_A1_def handle_message_def
      event_id_def resolve_order_id_def truthy_def py_str_def register_def df_evict_def
      example_worker_def example_env_def KafkaAnalyticsWorker_init_def MetricsAggregator_init_def
      DuplicateFilter_init_def UniqueOrderWindow_init_def FailureWindow_init_def
      record_order_def record_duplicate_def uow_track_def uow_evict_def Let_def)

text \<open>
  C8, amended. For a message that decodes to a dict there is one identity string that
  \<open>_handle_message\<close> registers with the filter at every delivery, whatever the worker's
  state and the clock readings. On a worker whose filter has any history of calls at
  non-decreasing clock readings, after a delivery at \<open>t\<close> a redelivery at \<open>t'\<close> is
  answered as duplicate exactly when the filter holds the identity with a recorded time
  at most \<open>ttl\<close> seconds before \<open>t'\<close>. If the first delivery registered the identity,
  that time is \<open>t\<close>, so the redelivery is a duplicate exactly when \<open>t' - t \<le> ttl\<close>; if
  the first delivery was itself a duplicate, the recorded time is not refreshed. A
  redelivery answered as duplicate runs only \<open>record_duplicate\<close>; one that is not is
  handled as a first delivery and leaves the duplicates counter as it was.
\<close>

theorem C8_event_id_redelivery:
  assumes "decode_payload L val = Inr (JObj p)"
    and "deduper w = df_run cs (DuplicateFilter_init T0)"
    and "sorted (map fst cs @ [t, t'])"
  shows
    "(\<exists>ident. \<forall>w0 t0 tr0. \<exists>w0'.
        handle_message L t0 tr0 topic key val w0 = Inr w0' \<and>
        deduper w0' = snd (register t0 ident (deduper w0))) \<and>
     (\<exists>w1. handle_message L t tr topic key val w = Inr w1 \<and>
        fst (register t' (event_id L topic key p) (deduper w1)) =
          (\<exists>ts. map_of (df_seen (deduper w1)) (event_id L topic key p) = Some ts \<and>
                t' - ts \<le> max T0 1) \<and>
        (\<not> fst (register t (event_id L topic key p) (deduper w)) \<longrightarrow>
           map_of (df_seen (deduper w1)) (event_id L topic key p) = Some t \<and>
           fst (register t' (event_id L topic key p) (deduper w1)) = (t' - t \<le> max T0 1)) \<and>
        (fst (register t (event_id L topic key p) (deduper w)) \<longrightarrow>
           map_of (df_seen (deduper w1)) (event_id L topic key p) =
             map_of (df_seen (deduper w)) (event_id L topic key p)) \<and>
        (fst (register t' (event_id L topic key p) (deduper w1)) \<longrightarrow>
           handle_message L t' tr' topic key val w1 =
             Inr (w1\<lparr>deduper := df_evict t' (deduper w1),
                     metrics := record_duplicate (metrics w1)\<rparr>)) \<and>
        (\<not> fst (register t' (event_id L topic key p) (deduper w1)) \<longrightarrow>
           (\<exists>w2. handle_message L t' tr' topic key val w1 = Inr w2 \<and>
                 duplicates (stats (metrics w2)) = duplicates (stats (metrics w1)))))"
proof -
  let ?e = "event_id L topic key p" and ?T = "max T0 1"
  let ?rec = "spec_recorded ?T cs Map.empty"
  let ?d1 = "snd (register t ?e (deduper w))"
  have one: "\<exists>ident. \<forall>w0 t0 tr0. \<exists>w0'.
        handle_message L t0 tr0 topic key val w0 = Inr w0' \<and>
        deduper w0' = snd (register t0 ident (deduper w0))"
    using handle_message_registers [OF assms(1)] by (intro exI [of _ ?e]) blast
  have srt: "sorted (map fst cs @ [t])" and le: "t \<le> t'"
    using assms(3) by (auto simp: sorted_append)
  have inv: "df_inv ?T t ?rec (deduper w)"
    unfolding assms(2) by (rule df_run_inv [OF srt])
  have inv1: "df_inv ?T t (if fst (register t ?e (deduper w)) then ?rec else ?rec(?e \<mapsto> t)) ?d1"
    by (rule register_inv [OF inv order_refl])
  obtain w1 where w1: "handle_message L t tr topic key val w = Inr w1" "deduper w1 = ?d1"
    using handle_message_registers [OF assms(1)] by blast
  have a: "fst (register t' ?e (deduper w1)) =
      (\<exists>ts. map_of (df_seen (deduper w1)) ?e = Some ts \<and> t' - ts \<le> ?T)"
    unfolding w1(2) by (rule register_seen [OF inv1 le])
  have b: "map_of (df_seen (deduper w1)) ?e = Some t \<and>
      fst (register t' ?e (deduper w1)) = (t' - t \<le> ?T)"
    if n: "\<not> fst (register t ?e (deduper w))"
  proof -
    have "map_of (df_seen ?d1) ?e = Some t"
      using n by (simp add: register_def Let_def update_conv' split: if_splits)
    with a w1(2) show ?thesis by simp
  qed
  have c: "map_of (df_seen (deduper w1)) ?e = map_of (df_seen (deduper w)) ?e"
    if "fst (register t ?e (deduper w))"
    unfolding w1(2) by (rule register_no_refresh [OF inv that])
  have d: "handle_message L t' tr' topic key val w1 =
      Inr (w1\<lparr>deduper := df_evict t' (deduper w1), metrics := record_duplicate (metrics w1)\<rparr>)"
    if dup: "fst (register t' ?e (deduper w1))"
  proof -
    have "snd (register t' ?e (deduper w1)) = df_evict t' (deduper w1)"
      using dup by (simp add: register_def Let_def split: if_splits)
    with assms(1) dup show ?thesis by (simp add: handle_message_def Let_def)
  qed
  have e: "\<exists>w2. handle_message L t' tr' topic key val w1 = Inr w2 \<and>
      duplicates (stats (metrics w2)) = duplicates (stats (metrics w1))"
    if "\<not> fst (register t' ?e (deduper w1))"
    by (rule handle_message_first_duplicates [OF assms(1) that])
  from w1(1) a b c d e have "\<exists>w1. handle_message L t tr topic key val w = Inr w1 \<and>
        fst (register t' ?e (deduper w1)) =
          (\<exists>ts. map_of (df_seen (deduper w1)) ?e = Some ts \<and> t' - ts \<le> ?T) \<and>
        (\<not> fst (register t ?e (deduper w)) \<longrightarrow>
           map_of (df_seen (deduper w1)) ?e = Some t \<and>
           fst (register t' ?e (deduper w1)) = (t' - t \<le> ?T)) \<and>
        (fst (register t ?e (deduper w)) \<longrightarrow>
           map_of (df_seen (deduper w1)) ?e = map_of (df_seen (deduper w)) ?e) \<and>
        (fst (register t' ?e (deduper w1)) \<longrightarrow>
           handle_message L t' tr' topic key val w1 =
             Inr (w1\<lparr>deduper := df_evict t' (deduper w1),
                     metrics := record_duplicate (metrics w1)\<rparr>)) \<and>
        (\<not> fst (register t' ?e (deduper w1)) \<longrightarrow>
           (\<exists>w2. handle_message L t' tr' topic key val w1 = Inr w2 \<and>
                 duplicates (stats (metrics w2)) = duplicates (stats (metrics w1))))"
    by (intro exI [of _ w1]) blast
  with one show ?thesis by (rule conjI)
qed


theorem C8_event_id_redelivery_witness:
  "decode_payload example_lib (Some bytes_order_A1) = Inr (JObj [(''order_id'', JStr ''A1'')]) \<and>
   deduper example_worker = df_run [] (DuplicateFilter_init 60) \<and>
   sorted (map fst ([] :: (real \<times> string) list) @ [0, 61]) \<and>
   event_id example_lib ''orders'' None [(''order_id'', JStr ''A1'')] =
     ''orders:A1:4ad87b6fd075d09ba4e30bb27e1d004738712598'' \<and>
   (\<exists>w1. handle_message example_lib 0 0 ''orders'' None (Some bytes_order_A1) example_worker = Inr w1 \<and>
         map_of (df_seen (deduper w1)) ''orders:A1:4ad87b6fd075d09ba4e30bb27e1d004738712598'' = Some 0 \<and>
         \<not> fst (register 61 ''orders:A1:4ad87b6fd075d09ba4e30bb27e1d004738712598'' (deduper w1)))"
proof -
  have d: "decode_payload example_lib (Some bytes_order_A1) = Inr (JObj [(''order_id'', JStr ''A1'')])"
    by (simp add: decode_payload_def example_lib_def bytes_order_A1_def)
  have e: "event_id example_lib ''orders'' None [(''order_id'', JStr ''A1'')] =
      ''orders:A1:4ad87b6fd075d09ba4e30bb27e1d004738712598''"
    by (simp add: event_id_def example_lib_def truthy_def py_str_def Let_def)
  have w: "deduper example_worker = df_run [] (DuplicateFilter_init 60)"
    by (simp add: example_worker_def example_env_def KafkaAnalyticsWorker_init_def)
  have s: "sorted (map fst ([] :: (real \<times> string) list) @ [0, 61 :: real])" by simp
  have f: "\<not> fst (register 0 ''orders:A1:4ad87b6fd075d09ba4e30bb27e1d004738712598''
      (deduper example_worker))"
    by (simp add: w register_def df_evict_def DuplicateFilter_init_def Let_def)
  from C8_event_id_redelivery [OF d w s, of "''orders''" None 0 0] d e w s f
  show ?thesis by (simp; blast)
qed

text \<open>
  C9, as stated, fails. Two order-topic messages with no key and the body \<open>{}\<close> (no
  \<open>order_id\<close>) get the same identity; the second, five seconds after the first, is
  reported by the filter as a duplicate and only increments the duplicates counter: the
  orders counter stays at 1.
\<close>

theorem C9_keyless_duplicate_not_counted:
  "(case handle_message example_lib 0 0 ''orders'' None (Some [0x7B, 0x7D]) example_worker of
      Inl e \<Rightarrow> False
    | Inr w1 \<Rightarrow>
        stats (metrics w1) = \<lparr>orders = 1, inventory = 0, duplicates = 0\<rparr> \<and>
        (case handle_message example_lib 5 5 ''orders'' None (Some [0x7B, 0x7D]) w1 of
           Inl e \<Rightarrow> False
         | Inr w2 \<Rightarrow> stats (metrics w2) = \<lparr>orders = 1, inventory = 0, duplicates = 1\<rparr>))"
  by (simp add: decode_payload_def example_lib_def bytes_order_A1_def handle_message_def
      event_id_def resolve_order_id_def truthy_def py_str_def register_def df_evict_def
      example_worker_def example_env_def KafkaAnalyticsWorker_init_def MetricsAggregator_init_def
      DuplicateFilter_init_def UniqueOrderWindow_init_def FailureWindow_init_def
      record_order_def record_duplicate_def uow_track_def uow_evict_def Let_def)

text \<open>
  C9, amended. For an order-topic message whose payload decodes to a dict and whose
  identity the filter does not report as a duplicate: the orders counter is incremented,
  and the order window is given the payload's \<open>order_id\<close> as a string when the key is
  present (a JSON string as it is, JSON null as \<open>None\<close>), and holds it under the time of
  the call unless it is empty; with no \<open>order_id\<close>, the window is given the message key
  decoded as text and holds it when that text is not empty; with neither (or an empty
  decoded key) the window is left as it was, so the event counts in no \<open>orders_per_min\<close>.
\<close>

theorem C9_order_identifier:
  assumes "decode_payload L val = Inr (JObj p)"
    and "\<not> fst (register t_reg (event_id L (ORDER_TOPIC (worker_env w)) key p) (deduper w))"
    and "0 \<le> uow_window (order_window (metrics w))"
  shows
    "\<exists>w'. handle_message L t_reg t_rec (ORDER_TOPIC (worker_env w)) key val w = Inr w' \<and>
          orders (stats (metrics w')) = orders (stats (metrics w)) + 1 \<and>
          (\<forall>s. map_of p ''order_id'' = Some (JStr s) \<longrightarrow>
             order_window (metrics w') = uow_track t_rec (Some s) (order_window (metrics w)) \<and>
             (s \<noteq> [] \<longrightarrow> map_of (uow_entries (order_window (metrics w'))) s = Some t_rec)) \<and>
          (map_of p ''order_id'' = Some JNull \<longrightarrow>
             map_of (uow_entries (order_window (metrics w'))) ''None'' = Some t_rec) \<and>
          (\<forall>v. map_of p ''order_id'' = Some v \<longrightarrow>
             order_window (metrics w') =
               uow_track t_rec (Some (py_str L v)) (order_window (metrics w))) \<and>
          (\<forall>k. map_of p ''order_id'' = None \<and> key = Some k \<and> decode_ignore L k \<noteq> [] \<longrightarrow>
             order_window (metrics w') =
               uow_track t_rec (Some (decode_ignore L k)) (order_window (metrics w)) \<and>
             map_of (uow_entries (order_window (metrics w'))) (decode_ignore L k) = Some t_rec) \<and>
          (map_of p ''order_id'' = None \<and>
           (key = None \<or> (\<exists>k. key = Some k \<and> decode_ignore L k = [])) \<longrightarrow>
             order_window (metrics w') = order_window (metrics w) \<and>
             (\<forall>now. fst (per_minute now (order_window (metrics w'))) =
                    fst (per_minute now (order_window (metrics w)))))"
proof -
  let ?ow = "order_window (metrics w)"
  let ?w' = "w\<lparr>deduper := snd (register t_reg (event_id L (ORDER_TOPIC (worker_env w)) key p) (deduper w)),
               metrics := record_order t_rec (resolve_order_id L key p) (metrics w)\<rparr>"
  have h: "handle_message L t_reg t_rec (ORDER_TOPIC (worker_env w)) key val w = Inr ?w'"
    using assms(1,2) by (simp add: handle_message_def Let_def)
  have o: "orders (stats (metrics ?w')) = orders (stats (metrics w)) + 1"
    by (simp add: record_order_def)
  have tr: "map_of (uow_entries (uow_track t_rec (Some k) ?ow)) k = Some t_rec" if "k \<noteq> []" for k
    by (rule uow_track_tracked [OF assms(3) that])
  have c1: "order_window (metrics ?w') = uow_track t_rec (Some s) ?ow \<and>
      (s \<noteq> [] \<longrightarrow> map_of (uow_entries (order_window (metrics ?w'))) s = Some t_rec)"
    if "map_of p ''order_id'' = Some (JStr s)" for s
    using that tr [of s] by (simp add: record_order_def resolve_order_id_def py_str_def)
  have c2: "map_of (uow_entries (order_window (metrics ?w'))) ''None'' = Some t_rec"
    if "map_of p ''order_id'' = Some JNull"
    using that tr [of "''None''"] by (simp add: record_order_def resolve_order_id_def py_str_def)
  have c3: "order_window (metrics ?w') = uow_track t_rec (Some (py_str L v)) ?ow"
    if "map_of p ''order_id'' = Some v" for v
    using that by (simp add: record_order_def resolve_order_id_def)
  have c4: "order_window (metrics ?w') = uow_track t_rec (Some (decode_ignore L k)) ?ow \<and>
      map_of (uow_entries (order_window (metrics ?w'))) (decode_ignore L k) = Some t_rec"
    if "map_of p ''order_id'' = None \<and> key = Some k \<and> decode_ignore L k \<noteq> []" for k
    using that tr [of "decode_ignore L k"] by (simp add: record_order_def resolve_order_id_def Let_def)
  have c5: "order_window (metrics ?w') = ?ow \<and>
      (\<forall>now. fst (per_minute now (order_window (metrics ?w'))) = fst (per_minute now ?ow))"
    if "map_of p ''order_id'' = None \<and> (key = None \<or> (\<exists>k. key = Some k \<and> decode_ignore L k = []))"
  proof -
    from that have "resolve_order_id L key p = None"
      by (auto simp: resolve_order_id_def Let_def)
    then have "order_window (metrics ?w') = ?ow" by (simp add: record_order_def uow_track_def)
    then show ?thesis by simp
  qed
  from h o c1 c2 c3 c4 c5 show ?thesis by (intro exI [of _ ?w']) blast
qed

theorem C9_order_identifier_witness:
  "decode_payload example_lib (Some bytes_order_A1) = Inr (JObj [(''order_id'', JStr ''A1'')]) \<and>
   0 \<le> uow_window (order_window (metrics example_worker)) \<and>
   (\<exists>w'. handle_message example_lib 0 1 ''orders'' (Some [0x6B, 0x37]) (Some bytes_order_A1)
            example_worker = Inr w' \<and>
         orders (stats (metrics w')) = 1 \<and>
         map_of (uow_entries (order_window (metrics w'))) ''A1'' = Some 1 \<and>
         order_window (metrics w') =
           uow_track 1 (Some ''A1'') (order_window (metrics example_worker)))"
proof -
  have d: "decode_payload example_lib (Some bytes_order_A1) = Inr (JObj [(''order_id'', JStr ''A1'')])"
    by (simp add: decode_payload_def example_lib_def bytes_order_A1_def)
  have o: "ORDER_TOPIC (worker_env example_worker) = ''orders''"
    by (simp add: example_worker_def example_env_def KafkaAnalyticsWorker_init_def)
  have f: "\<not> fst (register 0 (event_id example_lib (ORDER_TOPIC (worker_env example_worker))
      (Some [0x6B, 0x37]) [(''order_id'', JStr ''A1'')]) (deduper example_worker))"
    by (simp add: register_def df_evict_def DuplicateFilter_init_def Let_def
        example_worker_def KafkaAnalyticsWorker_init_def)
  have z: "0 \<le> uow_window (order_window (metrics example_worker))"
    by (simp add: example_worker_def KafkaAnalyticsWorker_init_def MetricsAggregator_init_def
        UniqueOrderWindow_init_def)
  have s: "orders (stats (metrics example_worker)) = 0"
    by (simp add: example_worker_def KafkaAnalyticsWorker_init_def MetricsAggregator_init_def)
  from C9_order_identifier [OF d f z, of 1] d z o s show ?thesis by (simp; blast)
qed

end
